theory Spec2Isabelle
  imports Complex_Main
begin

section \<open>Numbers and angles\<close>

text \<open>
  The simulation computes with Python floats. They are modelled as mathematical reals:
  rounding is not represented, every branch and comparison of the source is. Python's
  \<^verbatim>\<open>x % (2 * math.pi)\<close> on floats is the floored remainder, with a result in
  \<open>[0, 2\<pi>)\<close>.
\<close>

definition mod_two_pi :: "real \<Rightarrow> real" where
  "mod_two_pi x = x - (2 * pi) * of_int \<lfloor>x / (2 * pi)\<rfloor>"

text \<open>
  \<^verbatim>\<open>angle_in_range(angle, start, end)\<close>: the three arguments are reduced,
  then the two comparisons of the source are made.
\<close>

definition angle_in_range :: "real \<Rightarrow> real \<Rightarrow> real \<Rightarrow> bool" where
  "angle_in_range angle start end' =
     (let angle = mod_two_pi angle;
          start = mod_two_pi start;
          end' = mod_two_pi end'
      in if start < end' then start \<le> angle \<and> angle \<le> end'
         else angle \<ge> start \<or> angle \<le> end')"

text \<open>
  \<^verbatim>\<open>math.atan2(y, x)\<close>, by quadrant, with the value 0 at the origin (the C library's
  convention, which Python follows: no error is raised there).
\<close>

definition atan2 :: "real \<Rightarrow> real \<Rightarrow> real" where
  "atan2 y x =
     (if x > 0 then arctan (y / x)
      else if x < 0 \<and> y \<ge> 0 then arctan (y / x) + pi
      else if x < 0 then arctan (y / x) - pi
      else if y > 0 then pi / 2
      else if y < 0 then - (pi / 2)
      else 0)"

type_synonym Vec2d = "real \<times> real"

definition vlength :: "Vec2d \<Rightarrow> real" where
  "vlength v = sqrt (fst v * fst v + snd v * snd v)"

definition dot :: "Vec2d \<Rightarrow> Vec2d \<Rightarrow> real" where
  "dot v w = fst v * fst w + snd v * snd w"

definition get_distance :: "Vec2d \<Rightarrow> Vec2d \<Rightarrow> real" where
  "get_distance v w = vlength (fst v - fst w, snd v - snd w)"

section \<open>Data model\<close>

text \<open>
  The classes of the source, without their drawing attributes (colours, the polyline of
  an arc). The field \<open>angle\<close> of an arc is \<^verbatim>\<open>body.angle\<close>; an arc's collision
  segments are in the physics space exactly while \<open>active\<close> holds.
\<close>

record RotatingArcCircle =
  radius :: real
  arc_start :: real
  arc_length :: real
  gap_length :: real
  angular_velocity :: real
  angle :: real
  active :: bool

record Ball =
  b_radius :: real
  position :: Vec2d
  velocity :: Vec2d

record Particle =
  pos :: Vec2d
  vel :: Vec2d
  lifetime :: real
  p_radius :: real

datatype error = ZeroDivisionError | IndexError | TypeError

datatype sound = HitSound nat | VanishSound

text \<open>
  The arguments of \<^verbatim>\<open>main\<close> that the simulation logic reads, the sounds that were
  loaded (\<open>hit_sounds\<close> is the length of \<^verbatim>\<open>random_hit_sounds\<close>: 5, or 0 when loading
  failed) and the random generator, as the stream \<open>rnd\<close> of its unit samples in
  \<open>[0, 1)\<close>; the state counts the samples consumed.
\<close>

record config =
  num_arcs :: int
  ball_radius :: real
  initial_balls :: int
  base_multiplier :: real
  particle_size :: real
  particle_count :: int
  countdown :: real
  ball_speed :: real
  center :: Vec2d
  hit_sounds :: nat
  vanish_sound :: bool
  rnd :: "nat \<Rightarrow> real"

record sim =
  balls :: "Ball list"
  circles :: "RotatingArcCircle list"
  active_circle_index :: int
  particles :: "Particle list"
  ball_hits :: int
  time_left :: real
  running :: bool
  game_won :: "bool option"
  rng :: nat
  played :: "sound list"

definition base_radius_val :: "config \<Rightarrow> real" where
  "base_radius_val cfg = ball_radius cfg * base_multiplier cfg"

definition radius_increment :: "config \<Rightarrow> real" where
  "radius_increment cfg = ball_radius cfg"

definition dt :: real where
  "dt = 1 / 60"

text \<open>\<^verbatim>\<open>random.uniform(a, b)\<close> is \<^verbatim>\<open>a + (b - a) * random()\<close>, on sample \<open>k\<close>.\<close>

definition uniform :: "config \<Rightarrow> nat \<Rightarrow> real \<Rightarrow> real \<Rightarrow> real" where
  "uniform cfg k a b = a + (b - a) * rnd cfg k"

text \<open>
  Python list indexing: a negative index counts from the end, an index out of range
  raises. The result is the position read or written.
\<close>

definition py_index :: "'a list \<Rightarrow> int \<Rightarrow> error + nat" where
  "py_index xs i =
     (let n = int (length xs)
      in if 0 \<le> i \<and> i < n then Inr (nat i)
         else if - n \<le> i \<and> i < 0 then Inr (nat (n + i))
         else Inl IndexError)"

section \<open>Arcs, balls and particles\<close>

definition RotatingArcCircle_init :: "real \<Rightarrow> real \<Rightarrow> real \<Rightarrow> real \<Rightarrow> RotatingArcCircle" where
  "RotatingArcCircle_init r a_start a_length ang_vel =
     \<lparr>radius = r, arc_start = a_start, arc_length = a_length,
      gap_length = 2 * pi - a_length, angular_velocity = ang_vel,
      angle = 0, active = True\<rparr>"

definition remove :: "RotatingArcCircle \<Rightarrow> RotatingArcCircle" where
  "remove c = c\<lparr>active := False\<rparr>"

definition get_gap_angles :: "RotatingArcCircle \<Rightarrow> real \<times> real" where
  "get_gap_angles c =
     (let gap_start = mod_two_pi (arc_start c + arc_length c + angle c);
          gap_end = mod_two_pi (arc_start c + 2 * pi + angle c)
      in (gap_start, gap_end))"

text \<open>The constructor of a ball draws the direction of its velocity from sample \<open>k\<close>.\<close>

definition Ball_init :: "config \<Rightarrow> nat \<Rightarrow> Vec2d \<Rightarrow> real \<Rightarrow> real \<Rightarrow> Ball" where
  "Ball_init cfg k p r speed =
     (let a = uniform cfg k 0 (2 * pi)
      in \<lparr>b_radius = r, position = p, velocity = (speed * cos a, speed * sin a)\<rparr>)"

definition Particle_update :: "real \<Rightarrow> Particle \<Rightarrow> Particle" where
  "Particle_update d p =
     p\<lparr>pos := (fst (pos p) + fst (vel p) * d, snd (pos p) + snd (vel p) * d),
       lifetime := lifetime p - d\<rparr>"

section \<open>Collision callbacks\<close>

text \<open>
  \<^verbatim>\<open>if random_hit_sounds: random.choice(random_hit_sounds).play()\<close>: the sound played
  is recorded in \<open>played\<close>, and the choice consumes one sample.
\<close>

definition play_hit :: "config \<Rightarrow> sim \<Rightarrow> sim" where
  "play_hit cfg st =
     (if hit_sounds cfg > 0
      then st\<lparr>played := played st @ [HitSound (nat \<lfloor>rnd cfg (rng st) * real (hit_sounds cfg)\<rfloor>)],
              rng := rng st + 1\<rparr>
      else st)"

definition ball_arc_collision :: "config \<Rightarrow> sim \<Rightarrow> bool \<times> sim" where
  "ball_arc_collision cfg st = (True, play_hit cfg (st\<lparr>ball_hits := ball_hits st + 1\<rparr>))"

text \<open>
  The search for a spawn position: at most 20 attempts (the first argument counts those
  left), each drawing an angle and a distance; the candidate of the last attempt is kept
  even when it is too close to a parent.
\<close>

primrec find_candidate ::
  "nat \<Rightarrow> config \<Rightarrow> real \<Rightarrow> real \<Rightarrow> Vec2d \<Rightarrow> Vec2d \<Rightarrow> Vec2d option \<Rightarrow> nat \<Rightarrow> Vec2d option \<times> nat" where
  "find_candidate 0 cfg R_enclosing min_dist p1 p2 candidate k = (candidate, k)"
| "find_candidate (Suc n) cfg R_enclosing min_dist p1 p2 candidate k =
     (let theta = uniform cfg k 0 (2 * pi);
          r = uniform cfg (k + 1) (R_enclosing * 0.5) R_enclosing;
          candidate = (fst (center cfg) + r * cos theta, snd (center cfg) + r * sin theta);
          d1 = get_distance candidate p1;
          d2 = get_distance candidate p2
      in if d1 \<ge> min_dist \<and> d2 \<ge> min_dist then (Some candidate, k + 2)
         else find_candidate n cfg R_enclosing min_dist p1 p2 (Some candidate) (k + 2))"

text \<open>
  \<^verbatim>\<open>ball_ball_collision\<close>; \<open>p1\<close> and \<open>p2\<close> are the positions of the two colliding
  bodies. The result is the value returned to the physics engine and the new state.
\<close>

definition ball_ball_collision :: "config \<Rightarrow> Vec2d \<Rightarrow> Vec2d \<Rightarrow> sim \<Rightarrow> error + bool \<times> sim" where
  "ball_ball_collision cfg p1 p2 st =
     (if length (balls st) < 100 then
        let st1 = play_hit cfg (st\<lparr>ball_hits := ball_hits st + 1\<rparr>)
        in case (if active_circle_index st1 < int (length (circles st1))
                 then (case py_index (circles st1) (active_circle_index st1) of
                         Inl e \<Rightarrow> Inl e
                       | Inr j \<Rightarrow> Inr (radius (circles st1 ! j)))
                 else Inr (base_radius_val cfg + (of_int (num_arcs cfg) - 1) * ball_radius cfg)) of
             Inl e \<Rightarrow> Inl e
           | Inr R_enclosing \<Rightarrow>
               (case find_candidate 20 cfg R_enclosing (3 * ball_radius cfg) p1 p2 None (rng st1) of
                  (None, k) \<Rightarrow> Inl TypeError
                | (Some candidate, k) \<Rightarrow>
                    let new_ball = Ball_init cfg k candidate (ball_radius cfg) (ball_speed cfg)
                    in Inr (True, st1\<lparr>balls := balls st1 @ [new_ball], rng := k + 1\<rparr>))
      else Inr (True, st))"

section \<open>Setup\<close>

definition create_balls :: "config \<Rightarrow> Ball list" where
  "create_balls cfg =
     map (\<lambda>i. let theta = (2 * pi * real i) / of_int (initial_balls cfg);
                  p = (fst (center cfg) + base_radius_val cfg * cos theta,
                       snd (center cfg) + base_radius_val cfg * sin theta)
              in Ball_init cfg i p (ball_radius cfg) (ball_speed cfg))
         [0 ..< nat (initial_balls cfg)]"

definition create_circle :: "config \<Rightarrow> nat \<Rightarrow> nat \<Rightarrow> RotatingArcCircle" where
  "create_circle cfg k i =
     (let r = base_radius_val cfg + real i * radius_increment cfg;
          arc_fraction = uniform cfg k 0.8 0.9;
          a_length = 2 * pi * arc_fraction;
          a_start = uniform cfg (k + 1) 0 (2 * pi);
          rot_speed = uniform cfg (k + 2) (pi / 4) (pi / 2);
          rot_speed = (if rnd cfg (k + 3) < 1 / 2 then - rot_speed else rot_speed)
      in RotatingArcCircle_init r a_start a_length rot_speed)"

definition create_circles :: "config \<Rightarrow> nat \<Rightarrow> RotatingArcCircle list" where
  "create_circles cfg k = map (\<lambda>i. create_circle cfg (k + 4 * i) i) [0 ..< nat (num_arcs cfg)]"

text \<open>The state on entry to the main loop.\<close>

definition initial_state :: "config \<Rightarrow> sim" where
  "initial_state cfg =
     \<lparr>balls = create_balls cfg,
      circles = create_circles cfg (nat (initial_balls cfg)),
      active_circle_index = 0,
      particles = [],
      ball_hits = 0,
      time_left = countdown cfg,
      running = True,
      game_won = None,
      rng = nat (initial_balls cfg) + 4 * nat (num_arcs cfg),
      played = []\<rparr>"

section \<open>The physics step\<close>

text \<open>
  The physics engine is outside the repository. One call of \<^verbatim>\<open>space.step(dt)\<close> is
  given by what it makes observable: the begin-of-contact callbacks it invokes, in order,
  then the position and velocity of every ball and the angle of every arc after the step
  (the random impulses applied before the step are part of that motion). A tick also
  reads whether a quit event was pending.
\<close>

datatype collision = BallArc | BallBall Vec2d Vec2d

record step_input =
  quit_event :: bool
  collisions :: "collision list"
  motion :: "nat \<Rightarrow> Vec2d \<times> Vec2d"
  rotation :: "nat \<Rightarrow> real"

fun run_callbacks :: "config \<Rightarrow> collision list \<Rightarrow> sim \<Rightarrow> error + sim" where
  "run_callbacks cfg [] st = Inr st"
| "run_callbacks cfg (BallArc # cs) st = run_callbacks cfg cs (snd (ball_arc_collision cfg st))"
| "run_callbacks cfg (BallBall p1 p2 # cs) st =
     (case ball_ball_collision cfg p1 p2 st of
        Inl e \<Rightarrow> Inl e
      | Inr (accepted, st1) \<Rightarrow> run_callbacks cfg cs st1)"

definition space_step :: "config \<Rightarrow> step_input \<Rightarrow> sim \<Rightarrow> error + sim" where
  "space_step cfg inp st =
     (case run_callbacks cfg (collisions inp) st of
        Inl e \<Rightarrow> Inl e
      | Inr st1 \<Rightarrow>
          Inr (st1\<lparr>balls := map (\<lambda>(i, b). b\<lparr>position := fst (motion inp i),
                                                velocity := snd (motion inp i)\<rparr>)
                                  (enumerate 0 (balls st1)),
                   circles := map (\<lambda>(i, c). c\<lparr>angle := rotation inp i\<rparr>)
                                  (enumerate 0 (circles st1))\<rparr>))"

section \<open>The ring manager\<close>

definition radial_of :: "config \<Rightarrow> Ball \<Rightarrow> Vec2d" where
  "radial_of cfg ball = (fst (position ball) - fst (center cfg), snd (position ball) - snd (center cfg))"

text \<open>
  The scan for an outer escape. Floor division of floats by zero raises
  \<^verbatim>\<open>ZeroDivisionError\<close>; it is reached only for a ball that passes the guard.
\<close>

fun escape_scan :: "config \<Rightarrow> int \<Rightarrow> Ball list \<Rightarrow> error + int" where
  "escape_scan cfg max_escape_index [] = Inr max_escape_index"
| "escape_scan cfg max_escape_index (ball # bs) =
     (let radial = radial_of cfg ball
      in if vlength radial > 0 \<and> dot (velocity ball) radial > 0 then
           (if radius_increment cfg = 0 then Inl ZeroDivisionError
            else
              let ball_outer = vlength radial + b_radius ball;
                  escape_index = \<lfloor>(ball_outer - base_radius_val cfg) / radius_increment cfg\<rfloor>
              in escape_scan cfg
                   (if escape_index > max_escape_index then escape_index else max_escape_index) bs)
         else escape_scan cfg max_escape_index bs)"

text \<open>The particle batch of a vanishing arc: two samples for each particle.\<close>

primrec spawn_particles ::
  "nat \<Rightarrow> config \<Rightarrow> RotatingArcCircle \<Rightarrow> Particle list \<Rightarrow> nat \<Rightarrow> Particle list \<times> nat" where
  "spawn_particles 0 cfg c ps k = (ps, k)"
| "spawn_particles (Suc n) cfg c ps k =
     (let part_angle = uniform cfg k (arc_start c + angle c) (arc_start c + arc_length c + angle c);
          p = (fst (center cfg) + radius c * cos part_angle,
               snd (center cfg) + radius c * sin part_angle);
          particle_speed = uniform cfg (k + 1) 50 150;
          v = (particle_speed * cos part_angle, particle_speed * sin part_angle)
      in spawn_particles n cfg c
           (ps @ [\<lparr>pos = p, vel = v, lifetime = 1, p_radius = particle_size cfg\<rparr>]) (k + 2))"

text \<open>
  What both paths do to an arc they destroy: remove it, play the vanish sound, spawn the
  particles. \<open>j\<close> is the position of the arc in \<open>circles\<close>.
\<close>

definition destroy_circle :: "config \<Rightarrow> nat \<Rightarrow> sim \<Rightarrow> sim" where
  "destroy_circle cfg j st =
     (let c = circles st ! j;
          st1 = st\<lparr>circles := (circles st)[j := remove c]\<rparr>;
          st2 = (if vanish_sound cfg then st1\<lparr>played := played st1 @ [VanishSound]\<rparr> else st1)
      in case spawn_particles (nat (particle_count cfg)) cfg c (particles st2) (rng st2) of
           (ps, k) \<Rightarrow> st2\<lparr>particles := ps, rng := k\<rparr>)"

text \<open>The loop of the skip path over \<^verbatim>\<open>range(active_circle_index, min(...))\<close>.\<close>

fun skip_destroy :: "config \<Rightarrow> int list \<Rightarrow> sim \<Rightarrow> error + sim" where
  "skip_destroy cfg [] st = Inr st"
| "skip_destroy cfg (i # idxs) st =
     (case py_index (circles st) i of
        Inl e \<Rightarrow> Inl e
      | Inr j \<Rightarrow>
          skip_destroy cfg idxs (if active (circles st ! j) then destroy_circle cfg j st else st))"

text \<open>The test of one ball against the current arc in the precise path.\<close>

definition ball_breaches :: "config \<Rightarrow> RotatingArcCircle \<Rightarrow> Ball \<Rightarrow> bool" where
  "ball_breaches cfg current_circle ball =
     (let radial = radial_of cfg ball
      in if vlength radial + b_radius ball \<ge> radius current_circle \<and> dot (velocity ball) radial > 0
         then
           (let ball_angle = mod_two_pi (atan2 (snd radial) (fst radial))
            in case get_gap_angles current_circle of
                 (gap_start, gap_end) \<Rightarrow> angle_in_range ball_angle gap_start gap_end)
         else False)"

text \<open>
  The loop over the balls in the precise path leaves at the first ball that breaches
  (\<^verbatim>\<open>break\<close>); what it then does depends on no ball in particular, so the loop is
  the search for such a ball.
\<close>

fun breach_scan :: "config \<Rightarrow> RotatingArcCircle \<Rightarrow> Ball list \<Rightarrow> bool" where
  "breach_scan cfg current_circle [] = False"
| "breach_scan cfg current_circle (ball # bs) =
     (if ball_breaches cfg current_circle ball then True
      else breach_scan cfg current_circle bs)"

definition boost :: "Ball \<Rightarrow> Ball" where
  "boost ball = (case velocity ball of (vx, vy) \<Rightarrow> ball\<lparr>velocity := (vx * 1.1, vy * 1.1)\<rparr>)"

definition precise_breach :: "config \<Rightarrow> sim \<Rightarrow> error + sim" where
  "precise_breach cfg st =
     (if active_circle_index st < int (length (circles st)) then
        (case py_index (circles st) (active_circle_index st) of
           Inl e \<Rightarrow> Inl e
         | Inr j \<Rightarrow>
             if active (circles st ! j) then
               (if breach_scan cfg (circles st ! j) (balls st) then
                  let st1 = destroy_circle cfg j st;
                      st2 = st1\<lparr>active_circle_index := active_circle_index st1 + 1\<rparr>
                  in Inr (st2\<lparr>balls := map boost (balls st2)\<rparr>)
                else Inr st)
             else Inr st)
      else Inr st)"

definition ring_manager :: "config \<Rightarrow> sim \<Rightarrow> error + sim" where
  "ring_manager cfg st =
     (case escape_scan cfg (active_circle_index st) (balls st) of
        Inl e \<Rightarrow> Inl e
      | Inr max_escape_index \<Rightarrow>
          if max_escape_index > active_circle_index st then
            (case skip_destroy cfg
                    [active_circle_index st .. min max_escape_index (int (length (circles st))) - 1] st of
               Inl e \<Rightarrow> Inl e
             | Inr st1 \<Rightarrow> Inr (st1\<lparr>active_circle_index := max_escape_index\<rparr>))
          else precise_breach cfg st)"

section \<open>Particles, the end of a tick, the main loop\<close>

definition update_particles :: "real \<Rightarrow> Particle list \<Rightarrow> Particle list" where
  "update_particles d ps = filter (\<lambda>p. lifetime p > 0) (map (Particle_update d) ps)"

definition end_check :: "sim \<Rightarrow> sim" where
  "end_check st =
     (let arcs_left = int (length (circles st)) - active_circle_index st
      in if active_circle_index st \<ge> int (length (circles st)) \<and> arcs_left < - 100
         then st\<lparr>running := False, game_won := Some True\<rparr>
         else if time_left st \<le> 0
         then st\<lparr>running := False, game_won := Some False\<rparr>
         else st)"

definition tick :: "config \<Rightarrow> step_input \<Rightarrow> sim \<Rightarrow> error + sim" where
  "tick cfg inp st =
     (let st1 = (if quit_event inp then st\<lparr>running := False\<rparr> else st);
          st2 = st1\<lparr>time_left := time_left st1 - dt\<rparr>
      in case space_step cfg inp st2 of
           Inl e \<Rightarrow> Inl e
         | Inr st3 \<Rightarrow>
             (case ring_manager cfg st3 of
                Inl e \<Rightarrow> Inl e
              | Inr st4 \<Rightarrow>
                  Inr (end_check (st4\<lparr>particles := update_particles dt (particles st4)\<rparr>))))"

text \<open>
  The match state of the specification, read off the loop's variables: \<^verbatim>\<open>game_won\<close>
  is unassigned until a terminal rule fires.
\<close>

datatype match_state = Running | Won | Lost

definition match_state_of :: "sim \<Rightarrow> match_state" where
  "match_state_of st =
     (case game_won st of None \<Rightarrow> Running | Some True \<Rightarrow> Won | Some False \<Rightarrow> Lost)"

text \<open>
  \<^verbatim>\<open>while running\<close>, over the ticks the environment supplies: the loop is left when
  \<open>running\<close> is false (or when the inputs end).
\<close>

fun main_loop :: "config \<Rightarrow> step_input list \<Rightarrow> sim \<Rightarrow> error + sim" where
  "main_loop cfg [] st = Inr st"
| "main_loop cfg (inp # inps) st =
     (if running st then
        (case tick cfg inp st of
           Inl e \<Rightarrow> Inl e
         | Inr st1 \<Rightarrow> main_loop cfg inps st1)
      else Inr st)"

section \<open>The words of the specification\<close>

text \<open>
  The escape index as the specification words it: the maximum, over the balls with a
  nonzero radial vector and positive outward radial speed, of the floored quotient, taken
  together with the current active index.
\<close>

definition moving_outward :: "config \<Rightarrow> Ball \<Rightarrow> bool" where
  "moving_outward cfg ball =
     (vlength (radial_of cfg ball) > 0 \<and> dot (velocity ball) (radial_of cfg ball) > 0)"

definition escape_index_of :: "config \<Rightarrow> Ball \<Rightarrow> int" where
  "escape_index_of cfg ball =
     \<lfloor>(vlength (radial_of cfg ball) + b_radius ball - base_radius_val cfg) / radius_increment cfg\<rfloor>"

definition max_escape_index_spec :: "config \<Rightarrow> int \<Rightarrow> Ball list \<Rightarrow> int" where
  "max_escape_index_spec cfg active_index bs =
     Max (insert active_index (escape_index_of cfg ` {b \<in> set bs. moving_outward cfg b}))"

text \<open>
  An angle strictly within a gap interval, as the specification words it: the interval
  without its two boundaries, wrapping through 0 when the start is not below the end.
\<close>

definition strictly_in_gap :: "real \<Rightarrow> real \<Rightarrow> real \<Rightarrow> bool" where
  "strictly_in_gap a gap_start gap_end =
     (if gap_start < gap_end then gap_start < a \<and> a < gap_end
      else gap_start < a \<or> a < gap_end)"

text \<open>What the ring manager leaves of the arcs: the arcs, the active index, the particles.\<close>

definition rings_view :: "error + sim \<Rightarrow> error + RotatingArcCircle list \<times> int \<times> Particle list" where
  "rings_view r =
     (case r of Inl e \<Rightarrow> Inl e
      | Inr s \<Rightarrow> Inr (circles s, active_circle_index s, particles s))"

section \<open>Example inputs\<close>

text \<open>
  A configuration with two arcs of radius 50 and 60 around the origin and balls of radius
  10, a generator that always returns 0, and arcs whose gap runs from 5.5 rad to the full
  turn.
\<close>

definition cfg_ex :: config where
  "cfg_ex =
     \<lparr>num_arcs = 2, ball_radius = 10, initial_balls = 1, base_multiplier = 5,
      particle_size = 2, particle_count = 1, countdown = 60, ball_speed = 150,
      center = (0, 0), hit_sounds = 5, vanish_sound = True, rnd = (\<lambda>k. 0)\<rparr>"

definition arc_ex :: "real \<Rightarrow> RotatingArcCircle" where
  "arc_ex r = RotatingArcCircle_init r 0 (11 / 2) 1"

definition ball_ex :: "Vec2d \<Rightarrow> Vec2d \<Rightarrow> Ball" where
  "ball_ex p v = \<lparr>b_radius = 10, position = p, velocity = v\<rparr>"

definition st_ex :: "Ball list \<Rightarrow> sim" where
  "st_ex bs =
     \<lparr>balls = bs, circles = [arc_ex 50, arc_ex 60], active_circle_index = 0,
      particles = [], ball_hits = 0, time_left = 60, running = True, game_won = None,
      rng = 0, played = []\<rparr>"

text \<open>
  A tick input with the given callbacks, after which every ball rests at the centre and
  every arc is at angle 0.
\<close>

definition inp_ex :: "collision list \<Rightarrow> step_input" where
  "inp_ex cs =
     \<lparr>quit_event = False, collisions = cs, motion = (\<lambda>i. ((0, 0), (0, 0))),
      rotation = (\<lambda>i. 0)\<rparr>"

section \<open>Facts about angles and vectors\<close>

lemma mod_two_pi_range: "0 \<le> mod_two_pi x \<and> mod_two_pi x < 2 * pi"
proof -
  have p: "0 < 2 * pi" by simp
  define q where "q = x / (2 * pi)"
  have x: "x = (2 * pi) * q" by (simp add: q_def)
  have "of_int \<lfloor>q\<rfloor> \<le> q" and "q < of_int \<lfloor>q\<rfloor> + 1" by linarith+
  then have "(2 * pi) * of_int \<lfloor>q\<rfloor> \<le> (2 * pi) * q"
    and "(2 * pi) * q < (2 * pi) * (of_int \<lfloor>q\<rfloor> + 1)"
    using p by (simp_all only: mult_le_cancel_left_pos mult_less_cancel_left_pos)
  then show ?thesis
    unfolding mod_two_pi_def q_def [symmetric] x [symmetric]
    by (simp add: algebra_simps)
qed

lemma mod_two_pi_id: "0 \<le> x \<Longrightarrow> x < 2 * pi \<Longrightarrow> mod_two_pi x = x"
proof -
  assume a: "0 \<le> x" "x < 2 * pi"
  have "\<lfloor>x / (2 * pi)\<rfloor> = 0"
    using a by (simp add: floor_eq_iff)
  then show ?thesis by (simp add: mod_two_pi_def)
qed

lemma mod_two_pi_cong: "\<exists>k::int. x = mod_two_pi x + 2 * pi * of_int k"
  by (rule exI [of _ "\<lfloor>x / (2 * pi)\<rfloor>"]) (simp add: mod_two_pi_def)

lemma pi_gt_3: "3 < pi"
proof -
  let ?x = "pi / 12"
  have s: "0 < sin ?x"
    by (rule sin_gt_zero) simp_all
  have "cos ?x \<noteq> 1"
  proof
    assume "cos ?x = 1"
    with sin_cos_squared_add [of ?x] have "sin ?x = 0" by simp
    with s show False by simp
  qed
  with cos_le_one [of ?x] have c: "cos ?x < 1" by (simp add: less_le)
  have "2 * sin ?x * cos ?x = 1 / 2"
    using sin_double [of ?x] sin_30 by simp
  moreover have "sin ?x * cos ?x < sin ?x"
    using s c by simp
  moreover have "sin ?x \<le> ?x"
    by (rule sin_x_le_x) simp
  ultimately show ?thesis by simp
qed

lemma mod_two_pi_0: "mod_two_pi 0 = 0"
  by (simp add: mod_two_pi_def)

lemma mod_two_pi_period: "mod_two_pi (2 * pi) = 0"
  by (simp add: mod_two_pi_def)

lemma mod_two_pi_11_2: "mod_two_pi (11 / 2) = 11 / 2"
  using pi_gt_3 by (simp add: mod_two_pi_id)

lemma atan2_x_axis: "0 < x \<Longrightarrow> atan2 0 x = 0"
  by (simp add: atan2_def)

lemma vlength_x0: "vlength (x, 0) = \<bar>x\<bar>"
  by (simp add: vlength_def)

lemma vlength_0y: "vlength (0, y) = \<bar>y\<bar>"
  by (simp add: vlength_def)

section \<open>Facts about the ring manager\<close>

lemma py_index_nonneg: "0 \<le> i \<Longrightarrow> i < int (length xs) \<Longrightarrow> py_index xs i = Inr (nat i)"
  by (simp add: py_index_def)

lemma destroy_circle_fields:
  "balls (destroy_circle cfg j st) = balls st"
  "active_circle_index (destroy_circle cfg j st) = active_circle_index st"
  "circles (destroy_circle cfg j st) = (circles st)[j := remove (circles st ! j)]"
  "time_left (destroy_circle cfg j st) = time_left st"
  "running (destroy_circle cfg j st) = running st"
  "game_won (destroy_circle cfg j st) = game_won st"
  "ball_hits (destroy_circle cfg j st) = ball_hits st"
  by (simp_all add: destroy_circle_def Let_def split: prod.split)

lemma boost_fields:
  "velocity (boost b) = (fst (velocity b) * 1.1, snd (velocity b) * 1.1)"
  "position (boost b) = position b" "b_radius (boost b) = b_radius b"
  by (simp_all add: boost_def split: prod.split)

text \<open>The skip loop over valid indices deactivates exactly the arcs it visits.\<close>

lemma skip_destroy_spec:
  "\<forall>i \<in> set idxs. 0 \<le> i \<and> i < int (length (circles st)) \<Longrightarrow>
   \<exists>st'. skip_destroy cfg idxs st = Inr st'
     \<and> balls st' = balls st
     \<and> active_circle_index st' = active_circle_index st
     \<and> length (circles st') = length (circles st)
     \<and> (\<forall>j < length (circles st).
           circles st' ! j = (if int j \<in> set idxs then remove (circles st ! j) else circles st ! j))"
proof (induction idxs arbitrary: st)
  case Nil
  then show ?case by simp
next
  case (Cons i idxs)
  define st1 where "st1 = (if active (circles st ! nat i) then destroy_circle cfg (nat i) st else st)"
  have i: "0 \<le> i" "i < int (length (circles st))" using Cons.prems by simp_all
  have len: "length (circles st1) = length (circles st)"
    by (simp add: st1_def destroy_circle_fields)
  have c1: "circles st1 ! j = (if j = nat i then remove (circles st ! j) else circles st ! j)"
    if "j < length (circles st)" for j
    using that by (auto simp: st1_def destroy_circle_fields nth_list_update remove_def)
  have "\<forall>i \<in> set idxs. 0 \<le> i \<and> i < int (length (circles st1))"
    using Cons.prems len by simp
  from Cons.IH [OF this] obtain st' where st':
    "skip_destroy cfg idxs st1 = Inr st'" "balls st' = balls st1"
    "active_circle_index st' = active_circle_index st1"
    "length (circles st') = length (circles st1)"
    "\<forall>j < length (circles st1).
       circles st' ! j = (if int j \<in> set idxs then remove (circles st1 ! j) else circles st1 ! j)"
    by blast
  have "skip_destroy cfg (i # idxs) st = Inr st'"
    using st'(1) i by (simp add: py_index_nonneg st1_def)
  moreover have "balls st' = balls st" "active_circle_index st' = active_circle_index st"
    using st'(2,3) by (simp_all add: st1_def destroy_circle_fields)
  moreover have "circles st' ! j =
      (if int j \<in> set (i # idxs) then remove (circles st ! j) else circles st ! j)"
    if "j < length (circles st)" for j
  proof -
    have "int j = i \<longleftrightarrow> j = nat i" using i by auto
    then show ?thesis
      using st'(5) that len c1 [OF that] by (auto simp: remove_def)
  qed
  ultimately show ?case using st'(4) len by auto
qed

text \<open>The scan computes the maximum that the specification words.\<close>

lemma Max_insert_insert:
  "finite S \<Longrightarrow> Max (insert (a::int) (insert e S)) = Max (insert (max a e) S)"
  by (cases "S = {}") (auto simp: max.assoc max.commute max.left_commute)

lemma escape_scan_spec:
  "radius_increment cfg \<noteq> 0 \<Longrightarrow> escape_scan cfg a bs = Inr (max_escape_index_spec cfg a bs)"
proof (induction bs arbitrary: a)
  case Nil
  then show ?case by (simp add: max_escape_index_spec_def)
next
  case (Cons b bs)
  let ?S = "escape_index_of cfg ` {x \<in> set bs. moving_outward cfg x}"
  have fin: "finite ?S" by simp
  show ?case
  proof (cases "moving_outward cfg b")
    case True
    then have set_eq: "escape_index_of cfg ` {x \<in> set (b # bs). moving_outward cfg x}
        = insert (escape_index_of cfg b) ?S" by auto
    have "escape_scan cfg a (b # bs) = escape_scan cfg (max a (escape_index_of cfg b)) bs"
      using True Cons.prems
      by (simp add: moving_outward_def escape_index_of_def Let_def max_def)
    then show ?thesis
      using Cons.IH [OF Cons.prems] set_eq Max_insert_insert [OF fin]
      by (simp add: max_escape_index_spec_def)
  next
    case False
    then have set_eq: "escape_index_of cfg ` {x \<in> set (b # bs). moving_outward cfg x} = ?S" by auto
    have "escape_scan cfg a (b # bs) = escape_scan cfg a bs"
      using False by (auto simp: moving_outward_def Let_def)
    then show ?thesis
      using Cons.IH [OF Cons.prems] set_eq by (simp add: max_escape_index_spec_def)
  qed
qed

lemma ring_manager_skip_path:
  assumes "0 \<le> active_circle_index st"
    and "escape_scan cfg (active_circle_index st) (balls st) = Inr m"
    and "active_circle_index st < m"
  shows "\<exists>st'. ring_manager cfg st = Inr st'
      \<and> active_circle_index st' = m
      \<and> length (circles st') = length (circles st)
      \<and> (\<forall>j < length (circles st).
            circles st' ! j =
              (if active_circle_index st \<le> int j \<and> int j < min m (int (length (circles st)))
               then (circles st ! j)\<lparr>active := False\<rparr> else circles st ! j))
      \<and> balls st' = balls st"
proof -
  let ?a = "active_circle_index st"
  let ?idxs = "[?a .. min m (int (length (circles st))) - 1]"
  have "\<forall>i \<in> set ?idxs. 0 \<le> i \<and> i < int (length (circles st))"
    using assms(1) by auto
  from skip_destroy_spec [OF this, of cfg] obtain st1 where st1:
    "skip_destroy cfg ?idxs st = Inr st1" "balls st1 = balls st"
    "active_circle_index st1 = ?a" "length (circles st1) = length (circles st)"
    "\<forall>j < length (circles st).
       circles st1 ! j = (if int j \<in> set ?idxs then remove (circles st ! j) else circles st ! j)"
    by blast
  have "ring_manager cfg st = Inr (st1\<lparr>active_circle_index := m\<rparr>)"
    using assms(2,3) st1(1) by (simp add: ring_manager_def)
  moreover have "circles st1 ! j =
      (if ?a \<le> int j \<and> int j < min m (int (length (circles st)))
       then (circles st ! j)\<lparr>active := False\<rparr> else circles st ! j)"
    if "j < length (circles st)" for j
    using st1(5) that by (auto simp: remove_def)
  ultimately show ?thesis using st1(2,4) by simp
qed

lemma breach_scan_iff: "breach_scan cfg c bs \<longleftrightarrow> (\<exists>b \<in> set bs. ball_breaches cfg c b)"
  by (induction bs) auto

lemma ball_breaches_iff:
  "ball_breaches cfg c b \<longleftrightarrow>
     vlength (radial_of cfg b) + b_radius b \<ge> radius c
     \<and> dot (velocity b) (radial_of cfg b) > 0
     \<and> angle_in_range (mod_two_pi (atan2 (snd (radial_of cfg b)) (fst (radial_of cfg b))))
          (fst (get_gap_angles c)) (snd (get_gap_angles c))"
  by (auto simp: ball_breaches_def Let_def split: prod.split)

lemma ring_manager_precise_path:
  assumes "0 \<le> active_circle_index st"
    and "escape_scan cfg (active_circle_index st) (balls st) = Inr m"
    and "m \<le> active_circle_index st"
  shows "\<exists>st'. ring_manager cfg st = Inr st'
      \<and> (if active_circle_index st < int (length (circles st))
             \<and> active (circles st ! nat (active_circle_index st))
             \<and> (\<exists>b \<in> set (balls st). ball_breaches cfg (circles st ! nat (active_circle_index st)) b)
          then circles st' = (circles st)[nat (active_circle_index st) :=
                                (circles st ! nat (active_circle_index st))\<lparr>active := False\<rparr>]
             \<and> active_circle_index st' = active_circle_index st + 1
             \<and> balls st' = map boost (balls st)
          else st' = st)"
proof -
  have rm: "ring_manager cfg st = precise_breach cfg st"
    using assms(2,3) by (simp add: ring_manager_def)
  show ?thesis
  proof (cases "active_circle_index st < int (length (circles st))")
    case True
    then have "py_index (circles st) (active_circle_index st) = Inr (nat (active_circle_index st))"
      using assms(1) by (simp add: py_index_nonneg)
    then show ?thesis
      using True
      by (simp add: rm precise_breach_def breach_scan_iff destroy_circle_fields remove_def Let_def)
  next
    case False
    then show ?thesis by (simp add: rm precise_breach_def)
  qed
qed

section \<open>What each step leaves unchanged\<close>

lemma play_hit_fields:
  "balls (play_hit cfg st) = balls st"
  "circles (play_hit cfg st) = circles st"
  "active_circle_index (play_hit cfg st) = active_circle_index st"
  "particles (play_hit cfg st) = particles st"
  "time_left (play_hit cfg st) = time_left st"
  "running (play_hit cfg st) = running st"
  "game_won (play_hit cfg st) = game_won st"
  "ball_hits (play_hit cfg st) = ball_hits st"
  by (simp_all add: play_hit_def)

lemma ball_ball_collision_frame:
  assumes "ball_ball_collision cfg p1 p2 st = Inr (acc, st')"
  shows "acc"
    and "length (balls st') = (if length (balls st) < 100 then length (balls st) + 1 else length (balls st))"
    and "circles st' = circles st" and "active_circle_index st' = active_circle_index st"
    and "particles st' = particles st" and "time_left st' = time_left st"
    and "running st' = running st" and "game_won st' = game_won st"
  using assms
  by (auto simp: ball_ball_collision_def Let_def play_hit_fields
      split: if_splits sum.splits prod.splits option.splits)

lemma run_callbacks_frame:
  "run_callbacks cfg cs st = Inr st' \<Longrightarrow>
     length (balls st') \<le> max 100 (length (balls st))
     \<and> length (balls st) \<le> length (balls st')
     \<and> ((\<forall>c \<in> set cs. c = BallArc) \<longrightarrow> balls st' = balls st)
     \<and> circles st' = circles st \<and> active_circle_index st' = active_circle_index st
     \<and> particles st' = particles st \<and> time_left st' = time_left st
     \<and> running st' = running st \<and> game_won st' = game_won st"
proof (induction cfg cs st rule: run_callbacks.induct)
  case (1 cfg st)
  then show ?case by simp
next
  case (2 cfg cs st)
  then show ?case by (simp add: ball_arc_collision_def play_hit_fields)
next
  case (3 cfg p1 p2 cs st)
  from "3.prems" obtain acc st1 where b: "ball_ball_collision cfg p1 p2 st = Inr (acc, st1)"
    and r: "run_callbacks cfg cs st1 = Inr st'"
    by (auto split: sum.splits)
  note f = ball_ball_collision_frame [OF b]
  from "3.IH" [OF b refl r] f show ?case
    by (auto split: if_splits)
qed

lemma space_step_frame:
  assumes "space_step cfg inp st = Inr st'"
  shows "length (balls st') \<le> max 100 (length (balls st))"
    and "length (balls st) \<le> length (balls st')"
    and "(\<forall>c \<in> set (collisions inp). c = BallArc) \<longrightarrow> length (balls st') = length (balls st)"
    and "length (circles st') = length (circles st)"
    and "map active (circles st') = map active (circles st)"
    and "active_circle_index st' = active_circle_index st"
    and "particles st' = particles st" and "time_left st' = time_left st"
    and "running st' = running st" and "game_won st' = game_won st"
proof -
  from assms obtain st1 where r: "run_callbacks cfg (collisions inp) st = Inr st1"
    and s: "st' = st1\<lparr>balls := map (\<lambda>(i, b). b\<lparr>position := fst (motion inp i),
                                                velocity := snd (motion inp i)\<rparr>)
                                  (enumerate 0 (balls st1)),
                   circles := map (\<lambda>(i, c). c\<lparr>angle := rotation inp i\<rparr>)
                                  (enumerate 0 (circles st1))\<rparr>"
    by (auto simp: space_step_def split: sum.splits)
  note f = run_callbacks_frame [OF r]
  show "length (balls st') \<le> max 100 (length (balls st))"
    "length (balls st) \<le> length (balls st')"
    "(\<forall>c \<in> set (collisions inp). c = BallArc) \<longrightarrow> length (balls st') = length (balls st)"
    "length (circles st') = length (circles st)"
    "active_circle_index st' = active_circle_index st"
    "particles st' = particles st" "time_left st' = time_left st"
    "running st' = running st" "game_won st' = game_won st"
    using f by (auto simp: s)
  show "map active (circles st') = map active (circles st)"
    using f by (auto intro!: nth_equalityI simp: s nth_enumerate_eq)
qed

lemma skip_destroy_frame:
  "skip_destroy cfg idxs st = Inr st' \<Longrightarrow>
     balls st' = balls st \<and> active_circle_index st' = active_circle_index st
     \<and> length (circles st') = length (circles st)
     \<and> time_left st' = time_left st \<and> running st' = running st \<and> game_won st' = game_won st"
proof (induction idxs arbitrary: st)
  case Nil
  then show ?case by simp
next
  case (Cons i idxs)
  from Cons.prems obtain j where j: "py_index (circles st) i = Inr j"
    and r: "skip_destroy cfg idxs
        (if active (circles st ! j) then destroy_circle cfg j st else st) = Inr st'"
    by (auto split: sum.splits)
  from Cons.IH [OF r] show ?case
    by (simp add: destroy_circle_fields split: if_splits)
qed

lemma precise_breach_frame:
  "precise_breach cfg st = Inr st' \<Longrightarrow>
     length (balls st') = length (balls st)
     \<and> active_circle_index st \<le> active_circle_index st'
     \<and> length (circles st') = length (circles st)
     \<and> time_left st' = time_left st \<and> running st' = running st \<and> game_won st' = game_won st"
  by (auto simp: precise_breach_def Let_def destroy_circle_fields split: if_splits sum.splits)

lemma ring_manager_frame:
  assumes "ring_manager cfg st = Inr st'"
  shows "length (balls st') = length (balls st)"
    and "active_circle_index st \<le> active_circle_index st'"
    and "length (circles st') = length (circles st)"
    and "time_left st' = time_left st" and "running st' = running st"
    and "game_won st' = game_won st"
proof -
  from assms obtain m where m: "escape_scan cfg (active_circle_index st) (balls st) = Inr m"
    by (auto simp: ring_manager_def split: sum.splits)
  have "length (balls st') = length (balls st)
     \<and> active_circle_index st \<le> active_circle_index st'
     \<and> length (circles st') = length (circles st)
     \<and> time_left st' = time_left st \<and> running st' = running st \<and> game_won st' = game_won st"
  proof (cases "active_circle_index st < m")
    case True
    with assms m obtain st1 where
      s: "skip_destroy cfg
            [active_circle_index st .. min m (int (length (circles st))) - 1] st = Inr st1"
      and e: "st' = st1\<lparr>active_circle_index := m\<rparr>"
      by (auto simp: ring_manager_def split: sum.splits)
    from skip_destroy_frame [OF s] True show ?thesis by (simp add: e)
  next
    case False
    with assms m have "precise_breach cfg st = Inr st'"
      by (simp add: ring_manager_def)
    from precise_breach_frame [OF this] show ?thesis .
  qed
  then show "length (balls st') = length (balls st)"
    "active_circle_index st \<le> active_circle_index st'"
    "length (circles st') = length (circles st)"
    "time_left st' = time_left st" "running st' = running st" "game_won st' = game_won st"
    by simp_all
qed

lemma end_check_fields:
  "balls (end_check st) = balls st" "circles (end_check st) = circles st"
  "active_circle_index (end_check st) = active_circle_index st"
  "particles (end_check st) = particles st" "time_left (end_check st) = time_left st"
  by (simp_all add: end_check_def Let_def)

lemma tick_cases:
  assumes "tick cfg inp st = Inr st'"
  obtains st3 st4 where
    "space_step cfg inp
       ((if quit_event inp then st\<lparr>running := False\<rparr> else st)
          \<lparr>time_left := time_left st - dt\<rparr>) = Inr st3"
    "ring_manager cfg st3 = Inr st4"
    "st' = end_check (st4\<lparr>particles := update_particles dt (particles st4)\<rparr>)"
  using assms by (auto simp: tick_def Let_def split: sum.splits if_splits)

lemma tick_frame:
  assumes "tick cfg inp st = Inr st'"
  shows "length (balls st') \<le> max 100 (length (balls st))"
    and "(\<forall>c \<in> set (collisions inp). c = BallArc) \<longrightarrow> length (balls st') = length (balls st)"
    and "length (circles st') = length (circles st)"
    and "active_circle_index st \<le> active_circle_index st'"
    and "time_left st' = time_left st - dt"
    and "\<forall>p \<in> set (particles st'). 0 < lifetime p"
proof -
  from assms obtain st3 st4 where
    a: "space_step cfg inp
       ((if quit_event inp then st\<lparr>running := False\<rparr> else st)
          \<lparr>time_left := time_left st - dt\<rparr>) = Inr st3"
    and b: "ring_manager cfg st3 = Inr st4"
    and c: "st' = end_check (st4\<lparr>particles := update_particles dt (particles st4)\<rparr>)"
    by (rule tick_cases)
  note f = space_step_frame [OF a] ring_manager_frame [OF b]
  show "length (balls st') \<le> max 100 (length (balls st))"
    "(\<forall>c \<in> set (collisions inp). c = BallArc) \<longrightarrow> length (balls st') = length (balls st)"
    "length (circles st') = length (circles st)"
    "active_circle_index st \<le> active_circle_index st'"
    "time_left st' = time_left st - dt"
    using f by (auto simp: c end_check_fields split: if_splits)
  show "\<forall>p \<in> set (particles st'). 0 < lifetime p"
    by (simp add: c end_check_fields update_particles_def)
qed

lemma tick_end:
  assumes "tick cfg inp st = Inr st'"
  shows "\<exists>s. st' = end_check s \<and> game_won s = game_won st \<and> time_left s = time_left st - dt
      \<and> length (circles s) = length (circles st)"
proof -
  from assms obtain st3 st4 where
    a: "space_step cfg inp
       ((if quit_event inp then st\<lparr>running := False\<rparr> else st)
          \<lparr>time_left := time_left st - dt\<rparr>) = Inr st3"
    and b: "ring_manager cfg st3 = Inr st4"
    and c: "st' = end_check (st4\<lparr>particles := update_particles dt (particles st4)\<rparr>)"
    by (rule tick_cases)
  note f = space_step_frame [OF a] ring_manager_frame [OF b]
  show ?thesis
    by (rule exI [of _ "st4\<lparr>particles := update_particles dt (particles st4)\<rparr>"])
      (use f in \<open>auto simp: c split: if_splits\<close>)
qed

lemma main_loop_balls:
  "main_loop cfg inps st = Inr st' \<Longrightarrow> length (balls st') \<le> max 100 (length (balls st))"
proof (induction inps arbitrary: st)
  case Nil
  then show ?case by simp
next
  case (Cons inp inps)
  show ?case
  proof (cases "running st")
    case True
    with Cons.prems obtain st1 where t: "tick cfg inp st = Inr st1"
      and r: "main_loop cfg inps st1 = Inr st'"
      by (auto split: sum.splits)
    from Cons.IH [OF r] tick_frame(1) [OF t] show ?thesis by simp
  next
    case False
    with Cons.prems show ?thesis by simp
  qed
qed

lemma initial_balls_length: "length (balls (initial_state cfg)) = nat (initial_balls cfg)"
  by (simp add: initial_state_def create_balls_def)

text \<open>The active index never decreases; it starts at 0, so it is never negative.\<close>

lemma main_loop_active_index:
  "main_loop cfg inps st = Inr st' \<Longrightarrow> active_circle_index st \<le> active_circle_index st'"
proof (induction inps arbitrary: st)
  case Nil
  then show ?case by simp
next
  case (Cons inp inps)
  show ?case
  proof (cases "running st")
    case True
    with Cons.prems obtain st1 where t: "tick cfg inp st = Inr st1"
      and r: "main_loop cfg inps st1 = Inr st'"
      by (auto split: sum.splits)
    from Cons.IH [OF r] tick_frame(4) [OF t] show ?thesis by simp
  next
    case False
    with Cons.prems show ?thesis by simp
  qed
qed

lemma reachable_active_index_nonneg:
  "main_loop cfg inps (initial_state cfg) = Inr st \<Longrightarrow> 0 \<le> active_circle_index st"
  using main_loop_active_index [of cfg inps "initial_state cfg" st]
  by (simp add: initial_state_def)

lemma end_check_state:
  "game_won st = None \<Longrightarrow>
   match_state_of (end_check st) =
     (if int (length (circles st)) \<le> active_circle_index st
         \<and> int (length (circles st)) - active_circle_index st < - 100 then Won
      else if time_left st \<le> 0 then Lost else Running)"
  by (simp add: end_check_def match_state_of_def Let_def)

lemma end_check_id:
  "\<not> (int (length (circles st)) \<le> active_circle_index st
         \<and> int (length (circles st)) - active_circle_index st < - 100)
   \<Longrightarrow> 0 < time_left st \<Longrightarrow> end_check st = st"
  by (auto simp: end_check_def Let_def)

section \<open>The steps return\<close>

text \<open>
  With a non-negative active index no index is out of range, and with a nonzero ring
  spacing no division fails: every tick returns a state.
\<close>

lemma find_candidate_Some:
  "\<exists>c' k'. find_candidate (Suc n) cfg R md p1 p2 c k = (Some c', k')"
  by (induction n arbitrary: c k) (simp_all add: Let_def)

lemma ball_ball_collision_total:
  assumes "0 \<le> active_circle_index st"
  shows "\<exists>st'. ball_ball_collision cfg p1 p2 st = Inr (True, st')"
proof (cases "length (balls st) < 100")
  case True
  let ?st1 = "play_hit cfg (st\<lparr>ball_hits := ball_hits st + 1\<rparr>)"
  have a: "active_circle_index ?st1 = active_circle_index st" "circles ?st1 = circles st"
    by (simp_all add: play_hit_fields)
  have R: "\<exists>R. (if active_circle_index ?st1 < int (length (circles ?st1))
                 then (case py_index (circles ?st1) (active_circle_index ?st1) of
                         Inl e \<Rightarrow> Inl e
                       | Inr j \<Rightarrow> Inr (radius (circles ?st1 ! j)))
                 else Inr (base_radius_val cfg + (of_int (num_arcs cfg) - 1) * ball_radius cfg))
            = Inr R"
    using assms by (simp add: a py_index_nonneg)
  then obtain R where R: "(if active_circle_index ?st1 < int (length (circles ?st1))
                 then (case py_index (circles ?st1) (active_circle_index ?st1) of
                         Inl e \<Rightarrow> Inl e
                       | Inr j \<Rightarrow> Inr (radius (circles ?st1 ! j)))
                 else Inr (base_radius_val cfg + (of_int (num_arcs cfg) - 1) * ball_radius cfg))
            = Inr R" ..
  obtain c k where c: "find_candidate 20 cfg R (3 * ball_radius cfg) p1 p2 None (rng ?st1) = (Some c, k)"
    using find_candidate_Some [of 19 cfg R "3 * ball_radius cfg" p1 p2 None "rng ?st1"]
    by auto
  show ?thesis
    using True unfolding ball_ball_collision_def Let_def R by (simp add: c)
next
  case False
  then show ?thesis by (simp add: ball_ball_collision_def)
qed

lemma run_callbacks_total:
  "0 \<le> active_circle_index st \<Longrightarrow> \<exists>st'. run_callbacks cfg cs st = Inr st'"
proof (induction cfg cs st rule: run_callbacks.induct)
  case (1 cfg st)
  then show ?case by simp
next
  case (2 cfg cs st)
  then show ?case by (simp add: ball_arc_collision_def play_hit_fields)
next
  case (3 cfg p1 p2 cs st)
  from ball_ball_collision_total [OF "3.prems"] obtain st1 where
    b: "ball_ball_collision cfg p1 p2 st = Inr (True, st1)" by blast
  from ball_ball_collision_frame(4) [OF b] "3.prems" have "0 \<le> active_circle_index st1" by simp
  from "3.IH" [OF b refl this] b show ?case by simp
qed

lemma space_step_total:
  "0 \<le> active_circle_index st \<Longrightarrow> \<exists>st'. space_step cfg inp st = Inr st'"
  using run_callbacks_total [of st cfg "collisions inp"]
  by (auto simp: space_step_def)

lemma ring_manager_total:
  assumes "radius_increment cfg \<noteq> 0" and "0 \<le> active_circle_index st"
  shows "\<exists>st'. ring_manager cfg st = Inr st'"
proof -
  obtain m where m: "escape_scan cfg (active_circle_index st) (balls st) = Inr m"
    using escape_scan_spec [OF assms(1)] by blast
  show ?thesis
  proof (cases "active_circle_index st < m")
    case True
    from ring_manager_skip_path [OF assms(2) m True] show ?thesis by blast
  next
    case False
    then have "m \<le> active_circle_index st" by simp
    from ring_manager_precise_path [OF assms(2) m this] show ?thesis by blast
  qed
qed

lemma tick_total:
  assumes "radius_increment cfg \<noteq> 0" and "0 \<le> active_circle_index st"
  shows "\<exists>st'. tick cfg inp st = Inr st'"
proof -
  let ?st2 = "(if quit_event inp then st\<lparr>running := False\<rparr> else st)\<lparr>time_left := time_left st - dt\<rparr>"
  have "0 \<le> active_circle_index ?st2" using assms(2) by simp
  from space_step_total [OF this] obtain st3 where a: "space_step cfg inp ?st2 = Inr st3" by blast
  from space_step_frame(6) [OF a] assms(2) have "0 \<le> active_circle_index st3" by simp
  from ring_manager_total [OF assms(1) this] obtain st4 where b: "ring_manager cfg st3 = Inr st4"
    by blast
  show ?thesis
    using a b by (auto simp: tick_def Let_def)
qed

lemma main_loop_total:
  "radius_increment cfg \<noteq> 0 \<Longrightarrow> 0 \<le> active_circle_index st \<Longrightarrow>
     \<exists>st'. main_loop cfg inps st = Inr st'"
proof (induction inps arbitrary: st)
  case Nil
  then show ?case by simp
next
  case (Cons inp inps)
  from tick_total [OF Cons.prems] obtain st1 where t: "tick cfg inp st = Inr st1" by blast
  from tick_frame(4) [OF t] Cons.prems(2) have "0 \<le> active_circle_index st1" by simp
  from Cons.IH [OF Cons.prems(1) this] t show ?case by simp
qed

section \<open>A ball at the centre\<close>

lemma zero_radial:
  assumes "position b = center cfg"
  shows "vlength (radial_of cfg b) = 0" "dot v (radial_of cfg b) = 0"
  using assms by (simp_all add: radial_of_def vlength_def dot_def)

lemma escape_scan_skip_zero:
  "position b = center cfg \<Longrightarrow>
     escape_scan cfg m (bs1 @ b # bs2) = escape_scan cfg m (bs1 @ bs2)"
  by (induction bs1 arbitrary: m) (simp_all add: Let_def zero_radial)

lemma ball_breaches_zero: "position b = center cfg \<Longrightarrow> \<not> ball_breaches cfg c b"
  by (simp add: ball_breaches_iff zero_radial)

lemma breach_scan_skip_zero:
  "position b = center cfg \<Longrightarrow>
     breach_scan cfg c (bs1 @ b # bs2) = breach_scan cfg c (bs1 @ bs2)"
  by (simp add: breach_scan_iff ball_breaches_zero)

lemma destroy_circle_balls:
  "destroy_circle cfg j (st\<lparr>balls := X\<rparr>) = (destroy_circle cfg j st)\<lparr>balls := X\<rparr>"
  by (simp add: destroy_circle_def Let_def split: prod.split)

lemma skip_destroy_balls:
  "skip_destroy cfg idxs (st\<lparr>balls := X\<rparr>) =
     (case skip_destroy cfg idxs st of Inl e \<Rightarrow> Inl e | Inr s \<Rightarrow> Inr (s\<lparr>balls := X\<rparr>))"
proof (induction idxs arbitrary: st)
  case Nil
  then show ?case by simp
next
  case (Cons i idxs)
  show ?case
  proof (cases "py_index (circles st) i")
    case (Inl e)
    then show ?thesis by simp
  next
    case (Inr j)
    then show ?thesis
      using Cons.IH [of "destroy_circle cfg j st"] Cons.IH [of st]
      by (simp add: destroy_circle_balls)
  qed
qed

lemma ring_manager_view_cong:
  assumes "escape_scan cfg (active_circle_index st) X = escape_scan cfg (active_circle_index st) Y"
    and "\<And>c. breach_scan cfg c X = breach_scan cfg c Y"
  shows "rings_view (ring_manager cfg (st\<lparr>balls := X\<rparr>)) = rings_view (ring_manager cfg (st\<lparr>balls := Y\<rparr>))"
proof (cases "escape_scan cfg (active_circle_index st) Y")
  case (Inl e)
  then show ?thesis using assms(1) by (simp add: ring_manager_def rings_view_def)
next
  case (Inr m)
  show ?thesis
  proof (cases "active_circle_index st < m")
    case True
    then show ?thesis
      using assms(1) Inr
      by (simp add: ring_manager_def rings_view_def skip_destroy_balls split: sum.splits)
  next
    case False
    have "rings_view (precise_breach cfg (st\<lparr>balls := X\<rparr>)) =
        rings_view (precise_breach cfg (st\<lparr>balls := Y\<rparr>))"
      by (simp add: precise_breach_def rings_view_def assms(2) destroy_circle_balls
          destroy_circle_fields Let_def split: sum.splits)
    then show ?thesis
      using assms(1) Inr False by (simp add: ring_manager_def)
  qed
qed

section \<open>The example inputs, evaluated\<close>

lemma gap_ex: "get_gap_angles (arc_ex r) = (11 / 2, 0)"
  by (simp add: get_gap_angles_def arc_ex_def RotatingArcCircle_init_def
      mod_two_pi_period mod_two_pi_11_2)

lemma angle_in_range_gap_end_ex: "angle_in_range 0 (11 / 2) 0"
  by (simp add: angle_in_range_def mod_two_pi_0 mod_two_pi_11_2)

lemma breaches_ex: "ball_breaches cfg_ex (arc_ex 50) (ball_ex (45, 0) v) \<longleftrightarrow> 0 < fst v"
  by (simp add: ball_breaches_iff gap_ex radial_of_def cfg_ex_def ball_ex_def vlength_x0 dot_def
      atan2_x_axis mod_two_pi_0 angle_in_range_gap_end_ex)
    (simp add: arc_ex_def RotatingArcCircle_init_def)

lemma blocked_ex: "\<not> ball_breaches cfg_ex (arc_ex 50) (ball_ex (0, 45) (0, 1))"
proof -
  have a: "atan2 45 0 = pi / 2" by (simp add: atan2_def)
  have m: "mod_two_pi (pi / 2) = pi / 2" by (simp add: mod_two_pi_id)
  have "\<not> angle_in_range (pi / 2) (11 / 2) 0"
    using pi_less_4 by (simp add: angle_in_range_def m mod_two_pi_0 mod_two_pi_11_2 not_le)
  then show ?thesis
    by (simp add: ball_breaches_iff gap_ex radial_of_def cfg_ex_def ball_ex_def a m)
qed

lemma escape_ex_45: "escape_scan cfg_ex 0 [ball_ex (45, 0) (1, 0)] = Inr 0"
  by (simp add: radial_of_def cfg_ex_def ball_ex_def vlength_x0 dot_def
      base_radius_val_def radius_increment_def)

lemma escape_ex_75: "escape_scan cfg_ex 0 [ball_ex (75, 0) (1, 0)] = Inr 3"
  by (simp add: radial_of_def cfg_ex_def ball_ex_def vlength_x0 dot_def
      base_radius_val_def radius_increment_def)

lemma escape_ex_two:
  "escape_scan cfg_ex 0 [ball_ex (0, 45) (0, 1), ball_ex (45, 0) (1, 0)] = Inr 0"
  by (simp add: radial_of_def cfg_ex_def ball_ex_def vlength_x0 vlength_0y dot_def
      base_radius_val_def radius_increment_def)

lemma max_spec_ex: "max_escape_index_spec cfg_ex 0 [ball_ex (75, 0) (1, 0)] = 3"
  by (simp add: max_escape_index_spec_def moving_outward_def escape_index_of_def radial_of_def
      cfg_ex_def ball_ex_def vlength_x0 dot_def base_radius_val_def radius_increment_def)

lemma destroy_circle_ex:
  "destroy_circle cfg_ex 0 (st_ex bs) =
     \<lparr>balls = bs, circles = [(arc_ex 50)\<lparr>active := False\<rparr>, arc_ex 60],
      active_circle_index = 0,
      particles = [\<lparr>pos = (50, 0), vel = (50, 0), lifetime = 1, p_radius = 2\<rparr>],
      ball_hits = 0, time_left = 60, running = True, game_won = None,
      rng = 2, played = [VanishSound]\<rparr>"
  by (simp add: destroy_circle_def st_ex_def cfg_ex_def remove_def uniform_def arc_ex_def
      RotatingArcCircle_init_def Let_def)

lemma destroy_circle_ex_1:
  "destroy_circle cfg_ex (Suc 0)
     \<lparr>balls = bs, circles = [c, arc_ex 60], active_circle_index = a,
      particles = ps, ball_hits = h, time_left = t, running = r, game_won = g,
      rng = k, played = pl\<rparr> =
     \<lparr>balls = bs, circles = [c, (arc_ex 60)\<lparr>active := False\<rparr>],
      active_circle_index = a,
      particles = ps @ [\<lparr>pos = (60, 0), vel = (50, 0), lifetime = 1, p_radius = 2\<rparr>],
      ball_hits = h, time_left = t, running = r, game_won = g,
      rng = k + 2, played = pl @ [VanishSound]\<rparr>"
  by (simp add: destroy_circle_def cfg_ex_def remove_def uniform_def arc_ex_def
      RotatingArcCircle_init_def Let_def)

lemma ring_manager_boundary_ex:
  "ring_manager cfg_ex (st_ex [ball_ex (45, 0) (1, 0)]) =
     Inr \<lparr>balls = [ball_ex (45, 0) (11 / 10, 0)],
          circles = [(arc_ex 50)\<lparr>active := False\<rparr>, arc_ex 60],
          active_circle_index = 1,
          particles = [\<lparr>pos = (50, 0), vel = (50, 0), lifetime = 1, p_radius = 2\<rparr>],
          ball_hits = 0, time_left = 60, running = True, game_won = None,
          rng = 2, played = [VanishSound]\<rparr>"
proof -
  let ?st = "st_ex [ball_ex (45, 0) (1, 0)]"
  have f: "active_circle_index ?st = 0" "balls ?st = [ball_ex (45, 0) (1, 0)]"
    "circles ?st = [arc_ex 50, arc_ex 60]"
    by (simp_all add: st_ex_def)
  have act: "active (arc_ex 50)"
    by (simp add: arc_ex_def RotatingArcCircle_init_def)
  have "ring_manager cfg_ex ?st = precise_breach cfg_ex ?st"
    unfolding ring_manager_def f escape_ex_45 by simp
  also have "\<dots> = Inr ((destroy_circle cfg_ex 0 ?st)\<lparr>active_circle_index := 1,
      balls := map boost [ball_ex (45, 0) (1, 0)]\<rparr>)"
    by (simp add: precise_breach_def f py_index_def act breaches_ex destroy_circle_fields Let_def)
  finally show ?thesis
    by (simp add: destroy_circle_ex boost_def ball_ex_def)
qed

lemma ring_manager_skip_ex:
  "ring_manager cfg_ex (st_ex [ball_ex (75, 0) (1, 0)]) =
     Inr \<lparr>balls = [ball_ex (75, 0) (1, 0)],
          circles = [(arc_ex 50)\<lparr>active := False\<rparr>, (arc_ex 60)\<lparr>active := False\<rparr>],
          active_circle_index = 3,
          particles = [\<lparr>pos = (50, 0), vel = (50, 0), lifetime = 1, p_radius = 2\<rparr>,
                       \<lparr>pos = (60, 0), vel = (50, 0), lifetime = 1, p_radius = 2\<rparr>],
          ball_hits = 0, time_left = 60, running = True, game_won = None,
          rng = 4, played = [VanishSound, VanishSound]\<rparr>"
proof -
  let ?st = "st_ex [ball_ex (75, 0) (1, 0)]"
  have f: "active_circle_index ?st = 0" "balls ?st = [ball_ex (75, 0) (1, 0)]"
    "length (circles ?st) = 2"
    by (simp_all add: st_ex_def)
  have act: "active (arc_ex r)" for r
    by (simp add: arc_ex_def RotatingArcCircle_init_def)
  have c: "circles ?st = [arc_ex 50, arc_ex 60]"
    by (simp add: st_ex_def)
  have sd: "skip_destroy cfg_ex [0..1] ?st =
      Inr (destroy_circle cfg_ex (Suc 0) (destroy_circle cfg_ex 0 ?st))"
    by (simp add: upto.simps py_index_def c act destroy_circle_fields)
  have "ring_manager cfg_ex ?st =
      Inr ((destroy_circle cfg_ex (Suc 0) (destroy_circle cfg_ex 0 ?st))\<lparr>active_circle_index := 3\<rparr>)"
    unfolding ring_manager_def f escape_ex_75 by (simp add: sd)
  then show ?thesis
    by (simp add: destroy_circle_ex destroy_circle_ex_1)
qed

lemma tick_idle_ex:
  "tick cfg_ex (inp_ex []) ((st_ex [])\<lparr>particles := ps, time_left := t\<rparr>) =
     Inr (end_check ((st_ex [])\<lparr>particles := update_particles dt ps, time_left := t - dt\<rparr>))"
  by (simp add: tick_def inp_ex_def space_step_def ring_manager_def precise_breach_def
      py_index_def st_ex_def arc_ex_def RotatingArcCircle_init_def enumerate_eq_zip upt_rec Let_def)

section \<open>The escape scan and the skip path\<close>

text \<open>
  Claim C1. Let the maximal escape index be the maximum, over the balls with a nonzero
  radial vector and positive outward radial speed, of
  \<open>\<lfloor>(|radial| + ball radius - base radius) / ring spacing\<rfloor>\<close>, taken together with the
  active index. When it exceeds the active index, the ring manager destroys every arc whose
  index lies between the active index and the smaller of the maximal escape index and the
  number of arcs, whatever the angles of the balls and the gaps are, leaves the other arcs
  as they were, and sets the active index to the maximal escape index, also when that is
  larger than the number of arcs. (The ring spacing is nonzero, so that the quotient is
  defined, and the active index is not negative, as in every state of a run.)
\<close>

theorem skip_destruction:
  assumes "radius_increment cfg \<noteq> 0"
    and "0 \<le> active_circle_index st"
    and "active_circle_index st < max_escape_index_spec cfg (active_circle_index st) (balls st)"
  shows "\<exists>st'. ring_manager cfg st = Inr st'
      \<and> active_circle_index st' = max_escape_index_spec cfg (active_circle_index st) (balls st)
      \<and> length (circles st') = length (circles st)
      \<and> (\<forall>j < length (circles st).
            circles st' ! j =
              (if active_circle_index st \<le> int j
                  \<and> int j < min (max_escape_index_spec cfg (active_circle_index st) (balls st))
                                (int (length (circles st)))
               then (circles st ! j)\<lparr>active := False\<rparr> else circles st ! j))
      \<and> balls st' = balls st"
  using ring_manager_skip_path [OF assms(2) escape_scan_spec [OF assms(1)] assms(3)] .

theorem skip_destruction_witness:
  "radius_increment cfg_ex \<noteq> 0
   \<and> 0 \<le> active_circle_index (st_ex [ball_ex (75, 0) (1, 0)])
   \<and> active_circle_index (st_ex [ball_ex (75, 0) (1, 0)])
       < max_escape_index_spec cfg_ex 0 [ball_ex (75, 0) (1, 0)]
   \<and> int (length (circles (st_ex [ball_ex (75, 0) (1, 0)])))
       < max_escape_index_spec cfg_ex 0 [ball_ex (75, 0) (1, 0)]
   \<and> (\<exists>st'. ring_manager cfg_ex (st_ex [ball_ex (75, 0) (1, 0)]) = Inr st'
         \<and> active_circle_index st' = 3
         \<and> \<not> active (circles st' ! 0) \<and> \<not> active (circles st' ! 1)
         \<and> balls st' = [ball_ex (75, 0) (1, 0)])"
proof -
  let ?st = "st_ex [ball_ex (75, 0) (1, 0)]"
  have a: "active_circle_index ?st = 0" "balls ?st = [ball_ex (75, 0) (1, 0)]"
    "length (circles ?st) = 2"
    by (simp_all add: st_ex_def)
  have r: "radius_increment cfg_ex \<noteq> 0"
    by (simp add: radius_increment_def cfg_ex_def)
  have h: "active_circle_index ?st < max_escape_index_spec cfg_ex (active_circle_index ?st) (balls ?st)"
    by (simp add: a max_spec_ex)
  from skip_destruction [OF r _ h] obtain st' where st':
    "ring_manager cfg_ex ?st = Inr st'" "active_circle_index st' = 3"
    "\<forall>j < 2. circles st' ! j = (if 0 \<le> int j \<and> int j < min 3 2
        then (circles ?st ! j)\<lparr>active := False\<rparr> else circles ?st ! j)"
    "balls st' = [ball_ex (75, 0) (1, 0)]"
    by (auto simp: a max_spec_ex)
  from st'(3) have "\<not> active (circles st' ! 0)" "\<not> active (circles st' ! 1)"
    by simp_all
  with st' r show ?thesis by (simp add: a max_spec_ex)
qed

section \<open>The precise breach test\<close>

text \<open>
  Claim C2, amended. In a tick where the skip path does not fire, the ring manager
  destroys at most one arc, the one at the active index, and it does so exactly when that
  index is below the number of arcs, the arc is active, and some ball has its outer edge at
  or beyond the arc's radius, moves outward, and has its angle \<open>atan2(dy, dx) mod 2\<pi>\<close>
  inside the arc's current gap interval, boundaries included. Then the active index grows
  by exactly one and every ball is boosted once, however many balls qualify; otherwise the
  state is unchanged.
\<close>

theorem precise_breach_gap_inclusive:
  assumes "0 \<le> active_circle_index st"
    and "escape_scan cfg (active_circle_index st) (balls st) = Inr m"
    and "m \<le> active_circle_index st"
  shows "\<exists>st'. ring_manager cfg st = Inr st'
      \<and> (if active_circle_index st < int (length (circles st))
             \<and> active (circles st ! nat (active_circle_index st))
             \<and> (\<exists>b \<in> set (balls st).
                   vlength (radial_of cfg b) + b_radius b
                     \<ge> radius (circles st ! nat (active_circle_index st))
                   \<and> dot (velocity b) (radial_of cfg b) > 0
                   \<and> angle_in_range
                       (mod_two_pi (atan2 (snd (radial_of cfg b)) (fst (radial_of cfg b))))
                       (fst (get_gap_angles (circles st ! nat (active_circle_index st))))
                       (snd (get_gap_angles (circles st ! nat (active_circle_index st)))))
          then circles st' = (circles st)[nat (active_circle_index st) :=
                                (circles st ! nat (active_circle_index st))\<lparr>active := False\<rparr>]
             \<and> active_circle_index st' = active_circle_index st + 1
             \<and> balls st' = map boost (balls st)
          else st' = st)"
  using ring_manager_precise_path [OF assms] unfolding ball_breaches_iff .

theorem precise_breach_gap_inclusive_witness:
  "0 \<le> active_circle_index (st_ex [ball_ex (0, 45) (0, 1), ball_ex (45, 0) (1, 0)])
   \<and> escape_scan cfg_ex
        (active_circle_index (st_ex [ball_ex (0, 45) (0, 1), ball_ex (45, 0) (1, 0)]))
        (balls (st_ex [ball_ex (0, 45) (0, 1), ball_ex (45, 0) (1, 0)])) = Inr 0
   \<and> \<not> ball_breaches cfg_ex (arc_ex 50) (ball_ex (0, 45) (0, 1))
   \<and> (\<exists>st'. ring_manager cfg_ex (st_ex [ball_ex (0, 45) (0, 1), ball_ex (45, 0) (1, 0)]) = Inr st'
         \<and> circles st' = [(arc_ex 50)\<lparr>active := False\<rparr>, arc_ex 60]
         \<and> active_circle_index st' = 1
         \<and> balls st' = [ball_ex (0, 45) (0, 11 / 10), ball_ex (45, 0) (11 / 10, 0)])"
proof -
  let ?bs = "[ball_ex (0, 45) (0, 1), ball_ex (45, 0) (1, 0)]"
  let ?st = "st_ex ?bs"
  have f: "active_circle_index ?st = 0" "balls ?st = ?bs" "circles ?st = [arc_ex 50, arc_ex 60]"
    by (simp_all add: st_ex_def)
  have h1: "0 \<le> active_circle_index ?st" by (simp add: f)
  have h2: "escape_scan cfg_ex (active_circle_index ?st) (balls ?st) = Inr 0"
    unfolding f by (rule escape_ex_two)
  have h3: "(0::int) \<le> active_circle_index ?st" by (simp add: f)
  have act: "active (arc_ex 50)"
    by (simp add: arc_ex_def RotatingArcCircle_init_def)
  have br: "ball_breaches cfg_ex (arc_ex 50) (ball_ex (45, 0) (1, 0))"
    by (simp add: breaches_ex)
  from precise_breach_gap_inclusive [OF h1 h2 h3, folded ball_breaches_iff]
  obtain st' where st': "ring_manager cfg_ex ?st = Inr st'"
    "circles st' = [(arc_ex 50)\<lparr>active := False\<rparr>, arc_ex 60]"
    "active_circle_index st' = 1" "balls st' = map boost ?bs"
    using act br by (auto simp: f)
  have "map boost ?bs = [ball_ex (0, 45) (0, 11 / 10), ball_ex (45, 0) (11 / 10, 0)]"
    by (simp add: boost_def ball_ex_def)
  with st' h1 h2 blocked_ex show ?thesis by auto
qed

text \<open>
  Claim C2 as stated asks for an angle strictly within the gap. A ball whose angle is
  exactly the end of the gap (here angle 0, the gap running from 5.5 rad to the full turn)
  destroys the arc.
\<close>

theorem precise_breach_at_gap_boundary:
  "escape_scan cfg_ex (active_circle_index (st_ex [ball_ex (45, 0) (1, 0)]))
      (balls (st_ex [ball_ex (45, 0) (1, 0)])) = Inr 0
   \<and> ring_manager cfg_ex (st_ex [ball_ex (45, 0) (1, 0)]) =
       Inr \<lparr>balls = [ball_ex (45, 0) (11 / 10, 0)],
            circles = [(arc_ex 50)\<lparr>active := False\<rparr>, arc_ex 60],
            active_circle_index = 1,
            particles = [\<lparr>pos = (50, 0), vel = (50, 0), lifetime = 1, p_radius = 2\<rparr>],
            ball_hits = 0, time_left = 60, running = True, game_won = None,
            rng = 2, played = [VanishSound]\<rparr>
   \<and> mod_two_pi (atan2 0 45) = snd (get_gap_angles (arc_ex 50))
   \<and> \<not> strictly_in_gap (mod_two_pi (atan2 0 45))
          (fst (get_gap_angles (arc_ex 50))) (snd (get_gap_angles (arc_ex 50)))"
  by (simp add: ring_manager_boundary_ex gap_ex atan2_x_axis mod_two_pi_0 strictly_in_gap_def)
    (simp add: st_ex_def escape_ex_45 del: escape_scan.simps)

section \<open>The containment test\<close>

text \<open>
  Claim C3. \<open>angle_in_range\<close> reduces its three arguments modulo \<open>2\<pi>\<close> (to the value in
  \<open>[0, 2\<pi>)\<close> that differs from the argument by a multiple of \<open>2\<pi>\<close>); when the reduced
  start is below the reduced end it is the inclusive range check, otherwise it holds when
  the angle is at least the start or at most the end; both boundaries of an interval are
  inside it. The function is a pure function of its arguments.
\<close>

theorem angle_in_range_inclusive:
  "(0 \<le> mod_two_pi x \<and> mod_two_pi x < 2 * pi \<and> (\<exists>k::int. x = mod_two_pi x + 2 * pi * of_int k))
   \<and> angle_in_range a s e =
       (if mod_two_pi s < mod_two_pi e
        then mod_two_pi s \<le> mod_two_pi a \<and> mod_two_pi a \<le> mod_two_pi e
        else mod_two_pi a \<ge> mod_two_pi s \<or> mod_two_pi a \<le> mod_two_pi e)
   \<and> angle_in_range s s e \<and> angle_in_range e s e"
  using mod_two_pi_range [of x] mod_two_pi_cong [of x]
  by (simp add: angle_in_range_def Let_def)

theorem angle_in_range_inclusive_witness:
  "angle_in_range 1 (1/2) (3/2) \<and> \<not> angle_in_range (8/5) (1/2) (3/2)
   \<and> angle_in_range 6 (11/2) 1 \<and> \<not> angle_in_range 3 (11/2) 1
   \<and> angle_in_range (1/2) (1/2) (3/2) \<and> angle_in_range (3/2) (1/2) (3/2)"
proof -
  have r: "mod_two_pi 1 = 1" "mod_two_pi (1/2) = 1/2" "mod_two_pi (3/2) = 3/2"
    "mod_two_pi (8/5) = 8/5" "mod_two_pi 6 = 6" "mod_two_pi (11/2) = 11/2" "mod_two_pi 3 = 3"
    using pi_gt_3 by (simp_all add: mod_two_pi_id)
  show ?thesis
    using angle_in_range_inclusive [of 0 1 "1/2" "3/2"]
      angle_in_range_inclusive [of 0 "8/5" "1/2" "3/2"]
      angle_in_range_inclusive [of 0 6 "11/2" 1]
      angle_in_range_inclusive [of 0 3 "11/2" 1]
    by (simp add: r)
qed

section \<open>The speed-up\<close>

text \<open>
  Claim C4, amended. The speed-up belongs to the precise breach test only: in a tick where
  the skip path fires the ring manager leaves the balls as they are, and in a tick where
  the precise test destroys the arc at the active index every ball's velocity components
  are multiplied by 1.1.
\<close>

theorem speed_up_on_precise_breach_only:
  assumes "0 \<le> active_circle_index st"
    and "escape_scan cfg (active_circle_index st) (balls st) = Inr m"
  shows "(\<exists>st'. ring_manager cfg st = Inr st'
       \<and> (if active_circle_index st < m then balls st' = balls st
          else if active_circle_index st < int (length (circles st))
                  \<and> active (circles st ! nat (active_circle_index st))
                  \<and> \<not> active (circles st' ! nat (active_circle_index st))
          then balls st' = map boost (balls st)
          else balls st' = balls st))
      \<and> velocity (boost b) = (fst (velocity b) * 1.1, snd (velocity b) * 1.1)"
proof (cases "active_circle_index st < m")
  case True
  from ring_manager_skip_path [OF assms True] show ?thesis
    using True by (auto simp: boost_fields)
next
  case False
  then have le: "m \<le> active_circle_index st" by simp
  from ring_manager_precise_path [OF assms le] obtain st' where r: "ring_manager cfg st = Inr st'"
    and c: "if active_circle_index st < int (length (circles st))
             \<and> active (circles st ! nat (active_circle_index st))
             \<and> (\<exists>b \<in> set (balls st). ball_breaches cfg (circles st ! nat (active_circle_index st)) b)
          then circles st' = (circles st)[nat (active_circle_index st) :=
                                (circles st ! nat (active_circle_index st))\<lparr>active := False\<rparr>]
             \<and> active_circle_index st' = active_circle_index st + 1
             \<and> balls st' = map boost (balls st)
          else st' = st"
    by blast
  have "if active_circle_index st < int (length (circles st))
                  \<and> active (circles st ! nat (active_circle_index st))
                  \<and> \<not> active (circles st' ! nat (active_circle_index st))
          then balls st' = map boost (balls st)
          else balls st' = balls st"
    using c assms(1) by (auto split: if_splits)
  with r False show ?thesis by (auto simp: boost_fields)
qed

theorem speed_up_on_precise_breach_only_witness:
  "0 \<le> active_circle_index (st_ex [ball_ex (75, 0) (1, 0)])
   \<and> escape_scan cfg_ex (active_circle_index (st_ex [ball_ex (75, 0) (1, 0)]))
        (balls (st_ex [ball_ex (75, 0) (1, 0)])) = Inr 3
   \<and> (\<exists>st'. ring_manager cfg_ex (st_ex [ball_ex (75, 0) (1, 0)]) = Inr st'
         \<and> balls st' = [ball_ex (75, 0) (1, 0)])
   \<and> escape_scan cfg_ex (active_circle_index (st_ex [ball_ex (45, 0) (1, 0)]))
        (balls (st_ex [ball_ex (45, 0) (1, 0)])) = Inr 0
   \<and> (\<exists>st'. ring_manager cfg_ex (st_ex [ball_ex (45, 0) (1, 0)]) = Inr st'
         \<and> \<not> active (circles st' ! 0)
         \<and> balls st' = map boost [ball_ex (45, 0) (1, 0)])
   \<and> velocity (boost (ball_ex (75, 0) (1, 0))) = (11 / 10, 0)"
proof -
  let ?st = "st_ex [ball_ex (75, 0) (1, 0)]"
  let ?su = "st_ex [ball_ex (45, 0) (1, 0)]"
  have f: "active_circle_index (st_ex bs) = 0" "balls (st_ex bs) = bs"
    "circles (st_ex bs) = [arc_ex 50, arc_ex 60]" for bs
    by (simp_all add: st_ex_def)
  have h1: "0 \<le> active_circle_index (st_ex bs)" for bs by (simp add: f)
  have h2: "escape_scan cfg_ex (active_circle_index ?st) (balls ?st) = Inr 3"
    unfolding f by (rule escape_ex_75)
  have h3: "escape_scan cfg_ex (active_circle_index ?su) (balls ?su) = Inr 0"
    unfolding f by (rule escape_ex_45)
  from speed_up_on_precise_breach_only [OF h1 h2, of "ball_ex (75, 0) (1, 0)"]
  obtain st' where r: "ring_manager cfg_ex ?st = Inr st'"
    and b: "if active_circle_index ?st < 3 then balls st' = balls ?st
          else if active_circle_index ?st < int (length (circles ?st))
                  \<and> active (circles ?st ! nat (active_circle_index ?st))
                  \<and> \<not> active (circles st' ! nat (active_circle_index ?st))
          then balls st' = map boost (balls ?st)
          else balls st' = balls ?st"
    and v: "velocity (boost (ball_ex (75, 0) (1, 0)))
        = (fst (velocity (ball_ex (75, 0) (1, 0))) * 1.1, snd (velocity (ball_ex (75, 0) (1, 0))) * 1.1)"
    by blast
  from b have 1: "balls st' = [ball_ex (75, 0) (1, 0)]" by (simp add: f)
  from v have 2: "velocity (boost (ball_ex (75, 0) (1, 0))) = (11 / 10, 0)"
    by (simp add: ball_ex_def)
  from speed_up_on_precise_breach_only [OF h1 h3, of "ball_ex (75, 0) (1, 0)"]
  obtain su' where r': "ring_manager cfg_ex ?su = Inr su'"
    and b': "if active_circle_index ?su < 0 then balls su' = balls ?su
          else if active_circle_index ?su < int (length (circles ?su))
                  \<and> active (circles ?su ! nat (active_circle_index ?su))
                  \<and> \<not> active (circles su' ! nat (active_circle_index ?su))
          then balls su' = map boost (balls ?su)
          else balls su' = balls ?su"
    by blast
  have gone: "\<not> active (circles su' ! 0)"
    using r' by (auto simp: ring_manager_boundary_ex)
  have act: "active (arc_ex 50)"
    by (simp add: arc_ex_def RotatingArcCircle_init_def)
  from b' gone act have 3: "balls su' = map boost [ball_ex (45, 0) (1, 0)]"
    by (simp add: f)
  from 1 2 3 gone r r' h1 h2 h3 show ?thesis by blast
qed

text \<open>
  Claim C4 as stated also promises the speed-up on the skip path. Here the skip path
  destroys the arc at the active index (and the next one) and the ball keeps its velocity.
\<close>

theorem skip_path_no_speed_up:
  "active_circle_index (st_ex [ball_ex (75, 0) (1, 0)]) = 0
   \<and> active (circles (st_ex [ball_ex (75, 0) (1, 0)]) ! 0)
   \<and> ring_manager cfg_ex (st_ex [ball_ex (75, 0) (1, 0)]) =
     Inr \<lparr>balls = [ball_ex (75, 0) (1, 0)],
          circles = [(arc_ex 50)\<lparr>active := False\<rparr>, (arc_ex 60)\<lparr>active := False\<rparr>],
          active_circle_index = 3,
          particles = [\<lparr>pos = (50, 0), vel = (50, 0), lifetime = 1, p_radius = 2\<rparr>,
                       \<lparr>pos = (60, 0), vel = (50, 0), lifetime = 1, p_radius = 2\<rparr>],
          ball_hits = 0, time_left = 60, running = True, game_won = None,
          rng = 4, played = [VanishSound, VanishSound]\<rparr>
   \<and> velocity (ball_ex (75, 0) (1, 0)) = (1, 0)
   \<and> (1 * 1.1, 0 * 1.1) \<noteq> ((1, 0) :: Vec2d)"
  by (simp add: ring_manager_skip_ex) (simp add: st_ex_def ball_ex_def arc_ex_def RotatingArcCircle_init_def)

section \<open>The end of a match\<close>

text \<open>
  Claim C5. A running match becomes Won at the end-of-tick evaluation exactly when the
  active index is at least the number of arcs and the arcs left are below -100, that is
  when the active index is more than 100 past the number of arcs; with the active index
  equal to the number of arcs the match is not Won, and stays Running while time is left.
\<close>

theorem won_iff_over_advanced:
  assumes "match_state_of st = Running"
  shows "(match_state_of (end_check st) = Won \<longleftrightarrow>
            int (length (circles st)) \<le> active_circle_index st
            \<and> int (length (circles st)) - active_circle_index st < - 100)
      \<and> (match_state_of (end_check st) = Won \<longleftrightarrow>
            100 < active_circle_index st - int (length (circles st)))
      \<and> (active_circle_index st = int (length (circles st)) \<longrightarrow>
            match_state_of (end_check st) \<noteq> Won)
      \<and> (active_circle_index st = int (length (circles st)) \<and> 0 < time_left st \<longrightarrow>
            end_check st = st \<and> match_state_of (end_check st) = Running)"
proof -
  have g: "game_won st = None"
    using assms by (simp add: match_state_of_def split: option.splits bool.splits)
  show ?thesis
    using end_check_state [OF g] end_check_id [of st] assms by auto
qed

theorem won_iff_over_advanced_witness:
  "match_state_of ((st_ex [])\<lparr>active_circle_index := 103\<rparr>) = Running
   \<and> match_state_of (end_check ((st_ex [])\<lparr>active_circle_index := 103\<rparr>)) = Won
   \<and> match_state_of (end_check ((st_ex [])\<lparr>active_circle_index := 102\<rparr>)) = Running
   \<and> end_check ((st_ex [])\<lparr>active_circle_index := 2\<rparr>) = (st_ex [])\<lparr>active_circle_index := 2\<rparr>
   \<and> match_state_of (end_check ((st_ex [])\<lparr>active_circle_index := 2\<rparr>)) = Running"
proof -
  have h: "match_state_of ((st_ex [])\<lparr>active_circle_index := k\<rparr>) = Running" for k
    by (simp add: st_ex_def match_state_of_def)
  have "match_state_of (end_check ((st_ex [])\<lparr>active_circle_index := 103\<rparr>)) = Won"
    using won_iff_over_advanced [OF h [of 103]] by (simp add: st_ex_def)
  moreover have "end_check ((st_ex [])\<lparr>active_circle_index := 2\<rparr>) = (st_ex [])\<lparr>active_circle_index := 2\<rparr>"
    "match_state_of (end_check ((st_ex [])\<lparr>active_circle_index := 2\<rparr>)) = Running"
    using won_iff_over_advanced [OF h [of 2]] by (simp_all add: st_ex_def match_state_of_def)
  moreover have "match_state_of (end_check ((st_ex [])\<lparr>active_circle_index := 102\<rparr>)) = Running"
    by (simp add: end_check_state st_ex_def)
  ultimately show ?thesis using h [of 103] by simp
qed

text \<open>
  Claim C6, amended. Won has priority over Lost: a running match becomes Lost at the
  end-of-tick evaluation exactly when the time left is at most 0 and the Won condition does
  not hold; when both hold it becomes Won. Either way the loop stops when the time left is
  at most 0. The evaluation of a tick reads the time left after this tick's decrement and
  the active index after this tick's ring manager.
\<close>

theorem lost_unless_won:
  assumes "match_state_of st = Running"
  shows "(match_state_of (end_check st) = Lost \<longleftrightarrow>
            time_left st \<le> 0
            \<and> \<not> (int (length (circles st)) \<le> active_circle_index st
                  \<and> int (length (circles st)) - active_circle_index st < - 100))
      \<and> (time_left st \<le> 0
            \<and> int (length (circles st)) \<le> active_circle_index st
            \<and> int (length (circles st)) - active_circle_index st < - 100 \<longrightarrow>
            match_state_of (end_check st) = Won)
      \<and> (time_left st \<le> 0 \<longrightarrow> \<not> running (end_check st))
      \<and> (tick cfg inp st = Inr st' \<longrightarrow>
            (match_state_of st' = Lost \<longleftrightarrow>
               time_left st - dt \<le> 0
               \<and> \<not> (int (length (circles st')) \<le> active_circle_index st'
                     \<and> int (length (circles st')) - active_circle_index st' < - 100)))"
proof -
  have g: "game_won st = None"
    using assms by (simp add: match_state_of_def split: option.splits bool.splits)
  have 1: "match_state_of (end_check st) = Lost \<longleftrightarrow>
            time_left st \<le> 0
            \<and> \<not> (int (length (circles st)) \<le> active_circle_index st
                  \<and> int (length (circles st)) - active_circle_index st < - 100)"
    using end_check_state [OF g] by auto
  have 2: "time_left st \<le> 0
            \<and> int (length (circles st)) \<le> active_circle_index st
            \<and> int (length (circles st)) - active_circle_index st < - 100 \<longrightarrow>
            match_state_of (end_check st) = Won"
    using end_check_state [OF g] by auto
  have 3: "time_left st \<le> 0 \<longrightarrow> \<not> running (end_check st)"
    by (simp add: end_check_def Let_def)
  have 4: "match_state_of st' = Lost \<longleftrightarrow>
               time_left st - dt \<le> 0
               \<and> \<not> (int (length (circles st')) \<le> active_circle_index st'
                     \<and> int (length (circles st')) - active_circle_index st' < - 100)"
    if t: "tick cfg inp st = Inr st'"
  proof -
    from tick_end [OF t] obtain s where s: "st' = end_check s" "game_won s = game_won st"
      "time_left s = time_left st - dt" by blast
    from end_check_state [of s] s g show ?thesis
      by (auto simp: end_check_fields)
  qed
  from 1 2 3 4 show ?thesis by blast
qed

theorem lost_unless_won_witness:
  "match_state_of ((st_ex [])\<lparr>time_left := 0\<rparr>) = Running
   \<and> match_state_of (end_check ((st_ex [])\<lparr>time_left := 0\<rparr>)) = Lost
   \<and> \<not> running (end_check ((st_ex [])\<lparr>time_left := 0\<rparr>))
   \<and> (\<exists>st'. tick cfg_ex (inp_ex []) ((st_ex [])\<lparr>particles := [], time_left := 1 / 60\<rparr>) = Inr st'
         \<and> match_state_of st' = Lost)"
proof -
  let ?s = "(st_ex [])\<lparr>time_left := 0\<rparr>"
  let ?t = "(st_ex [])\<lparr>particles := [], time_left := 1 / 60\<rparr>"
  let ?t' = "end_check ((st_ex [])\<lparr>particles := update_particles dt [], time_left := 1 / 60 - dt\<rparr>)"
  have h: "match_state_of ?s = Running" "match_state_of ?t = Running"
    by (simp_all add: st_ex_def match_state_of_def)
  have t: "tick cfg_ex (inp_ex []) ?t = Inr ?t'"
    by (rule tick_idle_ex)
  note a = lost_unless_won [OF h(1), of cfg_ex "inp_ex []" ?t']
  note b = lost_unless_won [OF h(2), of cfg_ex "inp_ex []" ?t']
  have "match_state_of (end_check ?s) = Lost" "\<not> running (end_check ?s)"
    using a by (simp_all add: st_ex_def)
  moreover have "match_state_of ?t' = Lost"
    using b t by (simp add: end_check_fields st_ex_def dt_def)
  ultimately show ?thesis using h(1) t by blast
qed

text \<open>
  Claim C6 as stated gives Lost the priority. With the time at 0 and the active index 101
  past the two arcs, the evaluation yields Won.
\<close>

theorem won_beats_lost:
  "match_state_of ((st_ex [])\<lparr>active_circle_index := 103, time_left := 0\<rparr>) = Running
   \<and> time_left ((st_ex [])\<lparr>active_circle_index := 103, time_left := 0\<rparr>) \<le> 0
   \<and> match_state_of (end_check ((st_ex [])\<lparr>active_circle_index := 103, time_left := 0\<rparr>)) = Won
   \<and> match_state_of (end_check ((st_ex [])\<lparr>active_circle_index := 103, time_left := 0\<rparr>)) \<noteq> Lost"
  by (simp add: st_ex_def end_check_def match_state_of_def Let_def)

section \<open>The ball population\<close>

text \<open>
  Claim C7, amended. The ball population never exceeds the larger of 100 and the initial
  number of balls: the setup creates \<open>initial_balls\<close> balls, the ball-ball callback adds
  one ball exactly when the list holds fewer than 100, and a tick without ball-ball
  callbacks keeps the number of balls.
\<close>

theorem ball_population_bounded:
  "(main_loop cfg inps (initial_state cfg) = Inr st \<longrightarrow>
      length (balls st) \<le> max 100 (nat (initial_balls cfg)))
   \<and> length (balls (initial_state cfg)) = nat (initial_balls cfg)
   \<and> (ball_ball_collision cfg p1 p2 s = Inr (acc, s') \<longrightarrow>
        length (balls s') = (if length (balls s) < 100 then length (balls s) + 1 else length (balls s)))
   \<and> (tick cfg inp t = Inr t' \<and> (\<forall>c \<in> set (collisions inp). c = BallArc) \<longrightarrow>
        length (balls t') = length (balls t))"
  using main_loop_balls [of cfg inps "initial_state cfg" st] initial_balls_length [of cfg]
    ball_ball_collision_frame(2) [of cfg p1 p2 s acc s'] tick_frame(2) [of cfg inp t t']
  by auto

theorem ball_population_bounded_witness:
  "(\<exists>st. main_loop cfg_ex [inp_ex [BallBall (- 25, 0) (- 25, 0)]] (initial_state cfg_ex) = Inr st
        \<and> length (balls st) \<le> max 100 (nat (initial_balls cfg_ex)))
   \<and> length (balls (initial_state cfg_ex)) = 1
   \<and> (\<exists>s'. ball_ball_collision cfg_ex (1, 0) (0, 1) (st_ex []) = Inr (True, s')
         \<and> length (balls s') = 1)
   \<and> (\<exists>s'. tick cfg_ex (inp_ex [BallArc]) (st_ex [ball_ex (45, 0) (1, 0)]) = Inr s'
         \<and> length (balls s') = 1)"
proof -
  have r: "radius_increment cfg_ex \<noteq> 0"
    by (simp add: radius_increment_def cfg_ex_def)
  have a: "0 \<le> active_circle_index (initial_state cfg_ex)" "0 \<le> active_circle_index (st_ex bs)" for bs
    by (simp_all add: initial_state_def st_ex_def)
  obtain st where m: "main_loop cfg_ex [inp_ex [BallBall (- 25, 0) (- 25, 0)]] (initial_state cfg_ex) = Inr st"
    using main_loop_total [OF r a(1)] by blast
  obtain s1 where c: "ball_ball_collision cfg_ex (1, 0) (0, 1) (st_ex []) = Inr (True, s1)"
    using ball_ball_collision_total [OF a(2)] by blast
  obtain s2 where t: "tick cfg_ex (inp_ex [BallArc]) (st_ex [ball_ex (45, 0) (1, 0)]) = Inr s2"
    using tick_total [OF r a(2)] by blast
  have arcs: "\<forall>c \<in> set (collisions (inp_ex [BallArc])). c = BallArc"
    by (simp add: inp_ex_def)
  note inst = ball_population_bounded [where cfg = cfg_ex
      and inps = "[inp_ex [BallBall (- 25, 0) (- 25, 0)]]" and st = st
      and ?p1.0 = "(1, 0)" and ?p2.0 = "(0, 1)" and s = "st_ex []" and acc = True and s' = s1
      and inp = "inp_ex [BallArc]" and t = "st_ex [ball_ex (45, 0) (1, 0)]" and t' = s2]
  have "length (balls st) \<le> max 100 (nat (initial_balls cfg_ex))"
    using inst m by blast
  moreover have "length (balls (initial_state cfg_ex)) = 1"
    using inst by (simp add: cfg_ex_def)
  moreover have "length (balls s1) = 1"
    using inst c by (simp add: st_ex_def)
  moreover have "length (balls s2) = 1"
    using inst t arcs by (simp add: st_ex_def)
  ultimately show ?thesis using m c t by blast
qed

text \<open>
  Claim C7 as stated bounds the population by 100 in every state. The setup has no cap:
  started with 101 initial balls, the state on entry to the loop holds 101 balls.
\<close>

theorem initial_balls_over_cap:
  "length (balls (initial_state (cfg_ex\<lparr>initial_balls := 101\<rparr>))) = 101
   \<and> \<not> length (balls (initial_state (cfg_ex\<lparr>initial_balls := 101\<rparr>))) \<le> 100"
  by (simp add: initial_balls_length)

section \<open>The particles\<close>

text \<open>
  Claim C8. The update pass advances every particle by its velocity times the step and
  lowers its lifetime by the step; exactly the particles whose lifetime is then positive
  are kept, in order. So after every tick all live particles have a positive lifetime, and
  a particle of lifetime 0.016 is gone after a pass with step 0.0167 (and after one with
  the loop's step of 1/60).
\<close>

theorem expired_particles_removed:
  "update_particles d ps = map (Particle_update d) (filter (\<lambda>p. 0 < lifetime p - d) ps)
   \<and> (\<forall>p \<in> set (update_particles d ps). 0 < lifetime p)
   \<and> pos (Particle_update d p) = (fst (pos p) + fst (vel p) * d, snd (pos p) + snd (vel p) * d)
   \<and> lifetime (Particle_update d p) = lifetime p - d
   \<and> (tick cfg inp st = Inr st' \<longrightarrow> (\<forall>p \<in> set (particles st'). 0 < lifetime p))
   \<and> update_particles 0.0167 [p\<lparr>lifetime := 0.016\<rparr>] = []
   \<and> update_particles dt [p\<lparr>lifetime := 0.016\<rparr>] = []"
proof -
  have "update_particles d ps = map (Particle_update d) (filter (\<lambda>p. 0 < lifetime p - d) ps)"
    by (simp add: update_particles_def filter_map comp_def Particle_update_def)
  moreover have "\<forall>p \<in> set (update_particles d ps). 0 < lifetime p"
    by (simp add: update_particles_def)
  moreover have "tick cfg inp st = Inr st' \<longrightarrow> (\<forall>p \<in> set (particles st'). 0 < lifetime p)"
    using tick_frame(6) [of cfg inp st st'] by blast
  moreover have "update_particles 0.0167 [p\<lparr>lifetime := 0.016\<rparr>] = []"
    "update_particles dt [p\<lparr>lifetime := 0.016\<rparr>] = []"
    by (simp_all add: update_particles_def Particle_update_def dt_def)
  ultimately show ?thesis by (simp add: Particle_update_def)
qed

theorem expired_particles_removed_witness:
  "\<exists>st'. tick cfg_ex (inp_ex [])
       ((st_ex [])\<lparr>particles := [\<lparr>pos = (0, 0), vel = (60, 0), lifetime = 0.016, p_radius = 2\<rparr>,
                                   \<lparr>pos = (0, 0), vel = (60, 0), lifetime = 1, p_radius = 2\<rparr>],
                    time_left := 60\<rparr>) = Inr st'
     \<and> particles st' = [\<lparr>pos = (1, 0), vel = (60, 0), lifetime = 59 / 60, p_radius = 2\<rparr>]
     \<and> (\<forall>p \<in> set (particles st'). 0 < lifetime p)"
proof -
  let ?ps = "[\<lparr>pos = (0, 0), vel = (60, 0), lifetime = 0.016, p_radius = 2\<rparr>,
              \<lparr>pos = (0, 0), vel = (60, 0), lifetime = 1, p_radius = 2\<rparr>]"
  let ?st = "(st_ex [])\<lparr>particles := ?ps, time_left := 60\<rparr>"
  let ?st' = "end_check ((st_ex [])\<lparr>particles := update_particles dt ?ps, time_left := 60 - dt\<rparr>)"
  have t: "tick cfg_ex (inp_ex []) ?st = Inr ?st'"
    by (rule tick_idle_ex)
  have p: "particles ?st' = [\<lparr>pos = (1, 0), vel = (60, 0), lifetime = 59 / 60, p_radius = 2\<rparr>]"
    by (simp add: end_check_fields update_particles_def Particle_update_def dt_def)
  from expired_particles_removed [of _ _ _ cfg_ex "inp_ex []" ?st ?st'] t
  have "\<forall>p \<in> set (particles ?st'). 0 < lifetime p" by blast
  with t p show ?thesis by blast
qed

section \<open>A ball with a zero radial vector\<close>

text \<open>
  Claim C9. A ball at the common centre has a radial vector of length 0. The escape scan
  passes over it: the scan of a list with the ball equals the scan of the list without it,
  in value and in error, so the ball contributes no escape index and no division. It never
  passes the precise test either. The arcs, the active index and the particles that the
  ring manager returns are those it returns without the ball.
\<close>

theorem zero_radial_ball_skipped:
  assumes "position b = center cfg"
  shows "vlength (radial_of cfg b) = 0
      \<and> \<not> moving_outward cfg b
      \<and> escape_scan cfg m (bs1 @ b # bs2) = escape_scan cfg m (bs1 @ bs2)
      \<and> \<not> ball_breaches cfg c b
      \<and> breach_scan cfg c (bs1 @ b # bs2) = breach_scan cfg c (bs1 @ bs2)
      \<and> rings_view (ring_manager cfg (st\<lparr>balls := bs1 @ b # bs2\<rparr>))
          = rings_view (ring_manager cfg (st\<lparr>balls := bs1 @ bs2\<rparr>))"
proof -
  have "rings_view (ring_manager cfg (st\<lparr>balls := bs1 @ b # bs2\<rparr>))
          = rings_view (ring_manager cfg (st\<lparr>balls := bs1 @ bs2\<rparr>))"
    by (rule ring_manager_view_cong)
      (simp_all add: escape_scan_skip_zero [OF assms] breach_scan_skip_zero [OF assms])
  then show ?thesis
    using assms
    by (simp add: zero_radial moving_outward_def escape_scan_skip_zero ball_breaches_zero
        breach_scan_skip_zero)
qed

theorem zero_radial_ball_skipped_witness:
  "position (ball_ex (0, 0) (1, 0)) = center cfg_ex
   \<and> escape_scan cfg_ex 0 [ball_ex (0, 0) (1, 0), ball_ex (75, 0) (1, 0)] = Inr 3
   \<and> escape_scan (cfg_ex\<lparr>ball_radius := 0\<rparr>) 0 [ball_ex (0, 0) (1, 0)] = Inr 0
   \<and> \<not> ball_breaches cfg_ex (arc_ex 50) (ball_ex (0, 0) (1, 0))
   \<and> \<not> breach_scan cfg_ex (arc_ex 50) [ball_ex (0, 0) (1, 0)]
   \<and> rings_view (ring_manager cfg_ex (st_ex [ball_ex (0, 0) (1, 0), ball_ex (75, 0) (1, 0)]))
       = rings_view (ring_manager cfg_ex (st_ex [ball_ex (75, 0) (1, 0)]))"
proof -
  let ?b = "ball_ex (0, 0) (1, 0)"
  have h: "position ?b = center cfg_ex" "position ?b = center (cfg_ex\<lparr>ball_radius := 0\<rparr>)"
    by (simp_all add: ball_ex_def cfg_ex_def)
  have s: "(st_ex [])\<lparr>balls := bs\<rparr> = st_ex bs" for bs
    by (simp add: st_ex_def)
  note a = zero_radial_ball_skipped [OF h(1), of 0 "[]" "[ball_ex (75, 0) (1, 0)]" "arc_ex 50" "st_ex []"]
  note b = zero_radial_ball_skipped [OF h(2), of 0 "[]" "[]" "arc_ex 50" "st_ex []"]
  note c = zero_radial_ball_skipped [OF h(1), of 0 "[]" "[]" "arc_ex 50" "st_ex []"]
  have "escape_scan cfg_ex 0 [?b, ball_ex (75, 0) (1, 0)] = Inr 3"
    using a escape_ex_75 by simp
  moreover have "escape_scan (cfg_ex\<lparr>ball_radius := 0\<rparr>) 0 [?b] = Inr 0"
    using b by simp
  moreover have "\<not> ball_breaches cfg_ex (arc_ex 50) ?b" "\<not> breach_scan cfg_ex (arc_ex 50) [?b]"
    using c by simp_all
  moreover have "rings_view (ring_manager cfg_ex (st_ex [?b, ball_ex (75, 0) (1, 0)]))
       = rings_view (ring_manager cfg_ex (st_ex [ball_ex (75, 0) (1, 0)]))"
    using a by (simp add: s)
  ultimately show ?thesis using h(1) by blast
qed

section \<open>The ball cap in the collision callback\<close>

text \<open>
  Claim C10. When the ball list holds 100 balls or more, the ball-ball callback returns
  \<^verbatim>\<open>True\<close> and leaves the whole state as it was: no ball is added, the hit counter
  keeps its value and no sound is played.
\<close>

theorem ball_ball_collision_at_cap:
  "length (balls st) \<ge> 100 \<Longrightarrow> ball_ball_collision cfg p1 p2 st = Inr (True, st)"
  by (simp add: ball_ball_collision_def)

theorem ball_ball_collision_at_cap_witness:
  "100 \<le> length (balls (st_ex (replicate 100 (ball_ex (0, 0) (0, 0)))))
   \<and> ball_ball_collision cfg_ex (1, 0) (0, 1) (st_ex (replicate 100 (ball_ex (0, 0) (0, 0))))
       = Inr (True, st_ex (replicate 100 (ball_ex (0, 0) (0, 0))))"
proof -
  have h: "100 \<le> length (balls (st_ex (replicate 100 (ball_ex (0, 0) (0, 0)))))"
    by (simp add: st_ex_def)
  show ?thesis
    using h ball_ball_collision_at_cap [OF h, of cfg_ex "(1, 0)" "(0, 1)"] by simp
qed

end
